theory Spec2Isabelle
  imports Main "HOL-Library.Word"
begin

section \<open>The UDP input service (services/udp/service.go)\<close>

text \<open>
  The service is three goroutines (\<open>serve\<close>, \<open>parser\<close>, \<open>writer\<close>) around two queues, started
  by \<open>Open\<close> and stopped by \<open>Close\<close>. The embedding keeps the fields of the Go struct in one
  record, writes the straight-line code between two blocking points as a state-passing
  function, and schedules those functions by an executable step function \<open>fire\<close>: an action
  is enabled (\<open>Some\<close>) when the goroutine stands at that program point and the channel, lock,
  socket or wait group lets it through, and not enabled (\<open>None\<close>) when it would block.
  An execution is a list of actions.
\<close>

subsection \<open>Values\<close>

type_synonym byte = "8 word"
type_synonym int64 = "64 word"

text \<open>
  Go errors. \<open>ErrNew\<close> is \<open>errors.New\<close>; the three \<open>fmt.Errorf\<close> calls of \<open>Open\<close> keep
  their arguments unformatted; \<open>ErrExternal\<close> is an error made by the operating system or by a
  collaborator.
\<close>

datatype error =
    ErrNew string
  | ErrResolve string error
  | ErrListen string error
  | ErrReadBuffer int error
  | ErrExternal string

text \<open>
  Modelled from the spec: \<open>models.Point\<close> and \<open>models.ConsistencyLevel\<close> are declared outside
  this file. A DataPoint is "a structured record (measurement name, tag set, field set,
  timestamp)"; the writer uses the relaxed consistency level only.
\<close>

datatype point =
  Point (measurement: string) (tags: "(string \<times> string) list")
        (fields: "(string \<times> string) list") (timestamp: int)

datatype ConsistencyLevel =
  ConsistencyLevelAny | ConsistencyLevelOne | ConsistencyLevelQuorum | ConsistencyLevelAll

text \<open>The fields of \<open>Config\<close> that service.go reads (the declaration is in config.go).\<close>

record Config =
  BindAddress :: string
  Database :: string
  RetentionPolicy :: string
  BatchSize :: int
  BatchPending :: int
  BatchTimeout :: int
  ReadBuffer :: int
  Precision :: string

definition parserChanLen :: nat where
  "parserChanLen = 1000"

definition MaxUDPPayload :: nat where
  "MaxUDPPayload = 64 * 1024"

text \<open>The notifications of the \<open>Diagnostic\<close> interface, one constructor a method.\<close>

datatype diag_event =
    Started string
  | Closed
  | CreateInternalStorageFailure string error
  | PointWriterError string error
  | ParseError error
  | ReadFromError error

record Statistics =
  PointsReceived :: int64
  BytesReceived :: int64
  PointsParseFail :: int64
  ReadFail :: int64
  BatchesTransmitted :: int64
  PointsTransmitted :: int64
  BatchesTransmitFail :: int64

text \<open>
  A channel of \<open>struct{}\<close> on which nothing is ever sent: it is open or closed. The field
  \<open>done\<close> is \<open>None\<close> when nil. A UDP connection is open until \<open>conn.Close()\<close>.
\<close>

datatype chan = ChanOpen | ChanClosed

datatype UDPConn = ConnOpen | ConnClosed

subsection \<open>The batching component\<close>

text \<open>
  Modelled from the spec: \<open>tsdb.PointBatcher\<close> is not in this file. The spec (2, 4.3): it
  "buffers points and emits a batch when a size threshold is reached, a pending-batch count
  threshold is reached, or a timeout elapses since the batch began filling", and exposes "an
  input sink accepting one DataPoint at a time; an output source yielding completed Batches;
  a start operation that begins the internal timeout clock; a flush operation that forcibly
  emits any partially filled batch and makes the output source stop producing further batches
  once drained". Forwarding to it "may block if the batcher's internal buffer is saturated"
  (4.2, 5). The record holds the three thresholds, the batch that is filling and the
  completed batches that wait for the writer.
\<close>

record PointBatcher =
  pb_size :: int
  pb_pending :: int
  pb_timeout :: int
  pb_started :: bool
  pb_flushed :: bool
  pb_buf :: "point list"
  pb_out :: "point list list"

text \<open>Modelled from the spec: the constructor, with the three thresholds of the configuration.\<close>

definition NewPointBatcher :: "int \<Rightarrow> int \<Rightarrow> int \<Rightarrow> PointBatcher" where
  "NewPointBatcher sz pending timeout =
     \<lparr>pb_size = sz, pb_pending = pending, pb_timeout = timeout, pb_started = False,
      pb_flushed = False, pb_buf = [], pb_out = []\<rparr>"

text \<open>Modelled from the spec: the batch that is filling, if it holds a point, is completed.\<close>

definition batcher_emit :: "PointBatcher \<Rightarrow> PointBatcher" where
  "batcher_emit b =
     (if pb_buf b = [] then b else b\<lparr>pb_out := pb_out b @ [pb_buf b], pb_buf := []\<rparr>)"

text \<open>Modelled from the spec: "a start operation that begins the internal timeout clock".\<close>

definition batcher_Start :: "PointBatcher \<Rightarrow> PointBatcher" where
  "batcher_Start b = b\<lparr>pb_started := True\<rparr>"

text \<open>
  Modelled from the spec: the thresholds. The filling batch is full at the size threshold;
  the output has room below the pending-batch threshold; a threshold that is not positive
  bounds nothing. The spec says that the input blocks when the buffer is saturated and not
  when that is: here the buffer is saturated when the filling batch is full and the output
  has no room for it.
\<close>

definition batcher_full :: "PointBatcher \<Rightarrow> bool" where
  "batcher_full b = (0 < pb_size b \<and> pb_size b \<le> int (length (pb_buf b)))"

definition batcher_room :: "PointBatcher \<Rightarrow> bool" where
  "batcher_room b = (pb_pending b \<le> 0 \<or> int (length (pb_out b)) < pb_pending b)"

definition batcher_saturated :: "PointBatcher \<Rightarrow> bool" where
  "batcher_saturated b = (batcher_full b \<and> \<not> batcher_room b)"

text \<open>
  Modelled from the spec: the input sink, one point at a time. \<open>None\<close>: the send blocks, the
  buffer is saturated. Otherwise the point joins the filling batch, which is emitted when
  that reaches the size threshold, the output has room and the batcher has not been flushed.
\<close>

definition batcher_In :: "point \<Rightarrow> PointBatcher \<Rightarrow> PointBatcher option" where
  "batcher_In p b =
     (if batcher_saturated b then None
      else
        let b' = b\<lparr>pb_buf := pb_buf b @ [p]\<rparr>
        in Some (if \<not> pb_flushed b \<and> batcher_full b' \<and> batcher_room b'
                 then batcher_emit b' else b'))"

text \<open>Modelled from the spec: "a timeout elapses since the batch began filling".\<close>

definition batcher_timeout :: "PointBatcher \<Rightarrow> PointBatcher" where
  "batcher_timeout b = (if pb_started b \<and> \<not> pb_flushed b then batcher_emit b else b)"

text \<open>
  Modelled from the spec: flush "forcibly emits any partially filled batch and makes the
  output source stop producing further batches once drained".
\<close>

definition batcher_Flush :: "PointBatcher \<Rightarrow> PointBatcher" where
  "batcher_Flush b = (batcher_emit b)\<lparr>pb_flushed := True\<rparr>"

subsection \<open>The service and what surrounds it\<close>

text \<open>
  Where each goroutine stands. \<open>C_idle\<close>: no call of \<open>Close\<close> is running and \<open>s.mu\<close> is
  free. \<open>C_conn\<close>, \<open>C_flush\<close>, \<open>C_wait\<close>: \<open>Close\<close> holds \<open>s.mu\<close> and is about to run line 253,
  257, 258. A worker that has not been started or has returned is \<open>_off\<close>. The parser
  in the loop of line 235 is at \<open>P_forward points rest\<close>: \<open>points\<close> is what the decoder
  returned and \<open>rest\<close> what is still to be sent.
\<close>

datatype close_pc = C_idle | C_conn | C_flush | C_wait

datatype serve_pc = S_off | S_start | S_select | S_read | S_send "byte list"

datatype parser_pc = P_off | P_select | P_forward "point list" "point list"

datatype writer_pc =
  W_off | W_select | W_rlock "point list" | W_create "point list" | W_lock "point list"
  | W_write "point list"

text \<open>
  The fields of \<open>Service\<close> (\<open>conn\<close> to \<open>defaultTags\<close>), then what the collaborators have
  seen (\<open>meta_calls\<close>: the names passed to \<open>MetaClient.CreateDatabase\<close>; \<open>writes\<close>: the
  arguments of \<open>PointsWriter.WritePointsPrivileged\<close>), what the socket has pending
  (\<open>net_in\<close>: the results of the coming reads), and the program points. \<open>Diagnostic\<close> is
  \<open>None\<close> when nil, else the notifications the sink has received.
\<close>

record Service =
  conn :: "UDPConn option"
  addr :: "string option"
  wg :: int
  ready :: bool
  done_ch :: "chan option"
  parserChan :: "byte list list"
  batcher :: PointBatcher
  config :: Config
  Diagnostic :: "diag_event list option"
  stats :: Statistics
  defaultTags :: "(string \<times> string) list"
  meta_calls :: "string list"
  writes :: "(string \<times> string \<times> ConsistencyLevel \<times> point list) list"
  net_in :: "(error + byte list) list"
  close_at :: close_pc
  serve_at :: serve_pc
  parser_at :: parser_pc
  writer_at :: writer_pc

text \<open>
  What the service calls and this file does not define. \<open>CreateDatabase\<close> and
  \<open>WritePointsPrivileged\<close> answer by the number of calls made before, so that a collaborator
  can fail twice and then succeed.
\<close>

record world =
  WithDefaults :: "Config \<Rightarrow> Config"
  ResolveUDPAddr :: "string \<Rightarrow> error + string"
  ListenUDP :: "string \<Rightarrow> error option"
  SetReadBuffer :: "int \<Rightarrow> error option"
  ParsePointsWithPrecision :: "byte list \<Rightarrow> int \<Rightarrow> string \<Rightarrow> error + point list"
  CreateDatabase :: "nat \<Rightarrow> string \<Rightarrow> error option"
  WritePointsPrivileged ::
    "nat \<Rightarrow> string \<Rightarrow> string \<Rightarrow> ConsistencyLevel \<Rightarrow> point list \<Rightarrow> error option"

definition NewService :: "world \<Rightarrow> Config \<Rightarrow> Service" where
  "NewService w c =
     (let d = WithDefaults w c
      in \<lparr>conn = None, addr = None, wg = 0, ready = False, done_ch = None,
          parserChan = [],
          batcher = NewPointBatcher (BatchSize d) (BatchPending d) (BatchTimeout d),
          config = d, Diagnostic = None,
          stats = \<lparr>PointsReceived = 0, BytesReceived = 0, PointsParseFail = 0, ReadFail = 0,
                   BatchesTransmitted = 0, PointsTransmitted = 0, BatchesTransmitFail = 0\<rparr>,
          defaultTags = [(''bind'', BindAddress d)],
          meta_calls = [], writes = [], net_in = [],
          close_at = C_idle, serve_at = S_off, parser_at = P_off, writer_at = W_off\<rparr>)"

text \<open>\<open>With\<close> sets the sink; \<open>notify\<close> is the guarded call \<open>if s.Diagnostic != nil { ... }\<close>.\<close>

definition With :: "Service \<Rightarrow> Service" where
  "With s = s\<lparr>Diagnostic := Some []\<rparr>"

definition notify :: "diag_event \<Rightarrow> Service \<Rightarrow> Service" where
  "notify ev s =
     (case Diagnostic s of None \<Rightarrow> s | Some seen \<Rightarrow> s\<lparr>Diagnostic := Some (seen @ [ev])\<rparr>)"

text \<open>
  \<open>closed\<close> (line 278): the select takes the receive when \<open>done\<close> is a closed channel, and the
  default when it is open or nil; then \<open>s.done == nil\<close>.
\<close>

definition closed :: "Service \<Rightarrow> bool" where
  "closed s = (if done_ch s = Some ChanClosed then True else done_ch s = None)"

definition Ready :: "Service \<Rightarrow> bool" where
  "Ready s = ready s"

text \<open>The values of the snapshot that \<open>Statistics\<close> returns (line 147).\<close>

definition Statistics_Values :: "Service \<Rightarrow> (string \<times> int64) list" where
  "Statistics_Values s =
     [(''pointsRx'', PointsReceived (stats s)),
      (''bytesRx'', BytesReceived (stats s)),
      (''pointsParseFail'', PointsParseFail (stats s)),
      (''readFail'', ReadFail (stats s)),
      (''batchesTx'', BatchesTransmitted (stats s)),
      (''pointsTx'', PointsTransmitted (stats s)),
      (''batchesTxFail'', BatchesTransmitFail (stats s))]"

subsection \<open>Open\<close>

text \<open>
  \<open>Open\<close> (line 85) runs under \<open>s.mu\<close> and does not block. \<open>s.addr, err = ...\<close> and
  \<open>s.conn, err = ...\<close> assign nil on failure. A socket that has just been bound has nothing
  pending. The three \<open>go\<close> statements put the workers at their first line.
\<close>

definition Open :: "world \<Rightarrow> Service \<Rightarrow> error option \<times> Service" where
  "Open w s =
     (if \<not> closed s then (None, s)
      else
        let s1 = s\<lparr>done_ch := Some ChanOpen\<rparr> in
        if BindAddress (config s1) = [] then
          (Some (ErrNew ''bind address has to be specified in config''), s1)
        else if Database (config s1) = [] then
          (Some (ErrNew ''database has to be specified in config''), s1)
        else
          case ResolveUDPAddr w (BindAddress (config s1)) of
            Inl err \<Rightarrow> (Some (ErrResolve (BindAddress (config s1)) err), s1\<lparr>addr := None\<rparr>)
          | Inr a \<Rightarrow>
              let s2 = s1\<lparr>addr := Some a\<rparr> in
              (case ListenUDP w a of
                 Some err \<Rightarrow> (Some (ErrListen a err), s2\<lparr>conn := None\<rparr>)
               | None \<Rightarrow>
                   let s3 = s2\<lparr>conn := Some ConnOpen, net_in := []\<rparr> in
                   (case (if ReadBuffer (config s3) \<noteq> 0
                          then SetReadBuffer w (ReadBuffer (config s3)) else None) of
                      Some err \<Rightarrow> (Some (ErrReadBuffer (ReadBuffer (config s3)) err), s3)
                    | None \<Rightarrow>
                        (None,
                         (notify (Started (BindAddress (config s3))) s3)
                           \<lparr>wg := wg s3 + 3, serve_at := S_start, parser_at := P_select,
                            writer_at := W_select\<rparr>))))"

subsection \<open>Close\<close>

text \<open>
  \<open>Close\<close> (line 244) takes \<open>s.mu\<close> and keeps it until it returns; it blocks in
  \<open>s.wg.Wait()\<close>. \<open>Close_enter\<close> is lines 245 to 251: the result is \<open>Some\<close> of the returned
  value when the call returns at once, \<open>None\<close> when it goes on. \<open>Close_conn\<close> is lines 253 to
  255, \<open>Close_flush\<close> line 257, \<open>Close_finish\<close> lines 260 to 268, after the wait.
\<close>

definition Close_enter :: "Service \<Rightarrow> error option option \<times> Service" where
  "Close_enter s =
     (if closed s then (Some None, s)
      else (None, s\<lparr>done_ch := Some ChanClosed, close_at := C_conn\<rparr>))"

definition Close_conn :: "Service \<Rightarrow> Service" where
  "Close_conn s =
     (case conn s of
        None \<Rightarrow> s\<lparr>close_at := C_flush\<rparr>
      | Some c \<Rightarrow> s\<lparr>conn := Some ConnClosed, close_at := C_flush\<rparr>)"

definition Close_flush :: "Service \<Rightarrow> Service" where
  "Close_flush s = s\<lparr>batcher := batcher_Flush (batcher s), close_at := C_wait\<rparr>"

definition Close_finish :: "Service \<Rightarrow> error option \<times> Service" where
  "Close_finish s =
     (None, (notify Closed (s\<lparr>done_ch := None, conn := None\<rparr>))\<lparr>close_at := C_idle\<rparr>)"

subsection \<open>serve\<close>

text \<open>
  \<open>ReadFromUDP\<close> on a nil or closed connection returns an error at once; on an open one it
  blocks (\<open>None\<close>) until the socket has something, and a datagram longer than the buffer is
  cut to \<open>MaxUDPPayload\<close> bytes.
\<close>

definition ReadFromUDP :: "Service \<Rightarrow> ((error + byte list) \<times> Service) option" where
  "ReadFromUDP s =
     (case conn s of
        None \<Rightarrow> Some (Inl (ErrExternal ''invalid argument''), s)
      | Some ConnClosed \<Rightarrow> Some (Inl (ErrExternal ''use of closed network connection''), s)
      | Some ConnOpen \<Rightarrow>
          (case net_in s of
             [] \<Rightarrow> None
           | Inl err # rest \<Rightarrow> Some (Inl err, s\<lparr>net_in := rest\<rparr>)
           | Inr d # rest \<Rightarrow> Some (Inr (take MaxUDPPayload d), s\<lparr>net_in := rest\<rparr>)))"

text \<open>Lines 192 and 193.\<close>

definition serve_start :: "Service \<Rightarrow> Service" where
  "serve_start s = s\<lparr>batcher := batcher_Start (batcher s), serve_at := S_select\<rparr>"

text \<open>
  Lines 195 to 199: a select with a default does not block. The receive is taken when
  \<open>done\<close> is closed, the default otherwise. Returning runs the deferred \<open>s.wg.Done()\<close>.
\<close>

definition serve_select :: "Service \<Rightarrow> Service" where
  "serve_select s =
     (if done_ch s = Some ChanClosed then s\<lparr>wg := wg s - 1, serve_at := S_off\<rparr>
      else s\<lparr>serve_at := S_read\<rparr>)"

text \<open>Lines 201 to 212, once the read has returned \<open>r\<close>.\<close>

definition serve_read :: "error + byte list \<Rightarrow> Service \<Rightarrow> Service" where
  "serve_read r s =
     (case r of
        Inl err \<Rightarrow>
          (notify (ReadFromError err)
             (s\<lparr>stats := (stats s)\<lparr>ReadFail := ReadFail (stats s) + 1\<rparr>\<rparr>))
            \<lparr>serve_at := S_select\<rparr>
      | Inr d \<Rightarrow>
          s\<lparr>stats := (stats s)\<lparr>BytesReceived := BytesReceived (stats s) + of_nat (length d)\<rparr>,
            serve_at := S_send d\<rparr>)"

text \<open>Line 213: the send blocks while the queue holds \<open>parserChanLen\<close> datagrams.\<close>

definition serve_send :: "byte list \<Rightarrow> Service \<Rightarrow> Service option" where
  "serve_send d s =
     (if length (parserChan s) < parserChanLen
      then Some (s\<lparr>parserChan := parserChan s @ [d], serve_at := S_select\<rparr>)
      else None)"

subsection \<open>parser\<close>

text \<open>
  Lines 226 to 233, for the datagram \<open>buf\<close> received from \<open>parserChan\<close> at time \<open>now\<close>: on
  an error the datagram is counted and dropped, otherwise the parser enters the loop.
\<close>

definition parser_decode :: "world \<Rightarrow> int \<Rightarrow> byte list \<Rightarrow> Service \<Rightarrow> Service" where
  "parser_decode w now buf s =
     (case ParsePointsWithPrecision w buf now (Precision (config s)) of
        Inl err \<Rightarrow>
          (notify (ParseError err)
             (s\<lparr>stats := (stats s)\<lparr>PointsParseFail := PointsParseFail (stats s) + 1\<rparr>\<rparr>))
            \<lparr>parser_at := P_select\<rparr>
      | Inr points \<Rightarrow> s\<lparr>parser_at := P_forward points points\<rparr>)"

text \<open>
  Line 236, one send \<open>s.batcher.In() <- point\<close>: it blocks (\<open>None\<close>) while the batcher does
  not take the point.
\<close>

definition parser_send :: "point list \<Rightarrow> point \<Rightarrow> point list \<Rightarrow> Service \<Rightarrow> Service option" where
  "parser_send points p rest s =
     (case batcher_In p (batcher s) of
        None \<Rightarrow> None
      | Some b \<Rightarrow> Some (s\<lparr>batcher := b, parser_at := P_forward points rest\<rparr>))"

text \<open>Line 238, after the loop.\<close>

definition parser_count :: "point list \<Rightarrow> Service \<Rightarrow> Service" where
  "parser_count points s =
     s\<lparr>stats := (stats s)
          \<lparr>PointsReceived := PointsReceived (stats s) + of_nat (length points)\<rparr>,
       parser_at := P_select\<rparr>"

subsection \<open>writer and createInternalStorage\<close>

text \<open>
  \<open>call_CreateDatabase\<close> is line 312 with the collaborator's record of the call.
  \<open>createInternalStorage\<close> (line 304) is the whole function when both locks are granted.
\<close>

definition call_CreateDatabase :: "world \<Rightarrow> Service \<Rightarrow> error option \<times> Service" where
  "call_CreateDatabase w s =
     (CreateDatabase w (length (meta_calls s)) (Database (config s)),
      s\<lparr>meta_calls := meta_calls s @ [Database (config s)]\<rparr>)"

definition createInternalStorage :: "world \<Rightarrow> Service \<Rightarrow> error option \<times> Service" where
  "createInternalStorage w s =
     (if ready s then (None, s)
      else
        case call_CreateDatabase w s of
          (Some err, s1) \<Rightarrow> (Some err, s1)
        | (None, s1) \<Rightarrow> (None, s1\<lparr>ready := True\<rparr>))"

text \<open>Lines 173 to 181.\<close>

definition write_batch :: "world \<Rightarrow> point list \<Rightarrow> Service \<Rightarrow> Service" where
  "write_batch w batch s =
     (let s1 = s\<lparr>writes := writes s @
                 [(Database (config s), RetentionPolicy (config s), ConsistencyLevelAny, batch)]\<rparr>
      in case WritePointsPrivileged w (length (writes s)) (Database (config s))
                (RetentionPolicy (config s)) ConsistencyLevelAny batch of
           None \<Rightarrow>
             s1\<lparr>stats := (stats s1)
                  \<lparr>BatchesTransmitted := BatchesTransmitted (stats s1) + 1,
                   PointsTransmitted := PointsTransmitted (stats s1) + of_nat (length batch)\<rparr>\<rparr>
         | Some err \<Rightarrow>
             (let s2 = notify (PointWriterError (Database (config s1)) err) s1
              in s2\<lparr>stats := (stats s2)
                      \<lparr>BatchesTransmitFail := BatchesTransmitFail (stats s2) + 1\<rparr>\<rparr>))"

text \<open>
  Lines 165 to 181: what the writer does with one batch it has received, when the locks
  of \<open>createInternalStorage\<close> are granted; \<open>writer_batches\<close> is the loop over the batches
  it receives.
\<close>

definition writer_batch :: "world \<Rightarrow> point list \<Rightarrow> Service \<Rightarrow> Service" where
  "writer_batch w batch s =
     (case createInternalStorage w s of
        (Some err, s1) \<Rightarrow> notify (CreateInternalStorageFailure (Database (config s1)) err) s1
      | (None, s1) \<Rightarrow> write_batch w batch s1)"

definition writer_batches :: "world \<Rightarrow> point list list \<Rightarrow> Service \<Rightarrow> Service" where
  "writer_batches w batches s = foldl (\<lambda>t b. writer_batch w b t) s batches"

subsection \<open>The steps\<close>

text \<open>
  One action is one stretch of code between two points where a goroutine can block (the
  count of line 238 is an action of its own, so that it is seen to come after the sends).
  \<open>s.mu\<close> is held exactly while \<open>close_at\<close> is not \<open>C_idle\<close>: \<open>Open\<close> and the two critical
  sections of \<open>createInternalStorage\<close> take and release it within one action, \<open>Close\<close> keeps
  it over its wait. \<open>Net_deliver\<close> is a datagram or an error reaching the open socket and
  \<open>Batcher_timeout\<close> the batcher's clock; the others are lines of the file:
  \<^item> \<open>Call_With\<close>, \<open>Call_Open\<close>, \<open>Call_Close\<close> (lines 245 to 251), \<open>Do_Close_conn\<close>, \<open>Do_Close_flush\<close>,
    \<open>Do_Close_finish\<close> (line 258 on, enabled when the wait group is at zero);
  \<^item> \<open>Serve_start\<close>, \<open>Serve_select\<close>, \<open>Serve_read\<close>, \<open>Serve_send\<close>;
  \<^item> \<open>Parser_done\<close> (line 223), \<open>Parser_buf now\<close> (lines 225 to 233), \<open>Parser_send\<close> (line
    236, one point), \<open>Parser_count\<close> (line 238);
  \<^item> \<open>Writer_batch\<close> (line 164), \<open>Writer_done\<close> (line 183), \<open>Writer_rlock\<close> (lines 305 to
    310), \<open>Writer_create\<close> (lines 312 to 314 and 166 to 171), \<open>Writer_lock\<close> (lines 317 to
    320), \<open>Writer_write\<close> (lines 173 to 181).
  A select without default takes any case that is ready, so \<open>Parser_done\<close> and \<open>Parser_buf\<close>
  can both be enabled, and \<open>Writer_done\<close> and \<open>Writer_batch\<close> too.
\<close>

datatype action =
    Call_With | Call_Open | Call_Close | Do_Close_conn | Do_Close_flush | Do_Close_finish
  | Serve_start | Serve_select | Serve_read | Serve_send
  | Parser_done | Parser_buf int | Parser_send | Parser_count
  | Writer_batch | Writer_done | Writer_rlock | Writer_create | Writer_lock | Writer_write
  | Net_deliver "error + byte list" | Batcher_timeout

fun fire :: "world \<Rightarrow> action \<Rightarrow> Service \<Rightarrow> Service option" where
  "fire w Call_With s = Some (With s)"
| "fire w Call_Open s =
     (if close_at s = C_idle then Some (snd (Open w s)) else None)"
| "fire w Call_Close s =
     (if close_at s = C_idle then Some (snd (Close_enter s)) else None)"
| "fire w Do_Close_conn s =
     (if close_at s = C_conn then Some (Close_conn s) else None)"
| "fire w Do_Close_flush s =
     (if close_at s = C_flush then Some (Close_flush s) else None)"
| "fire w Do_Close_finish s =
     (if close_at s = C_wait \<and> wg s = 0 then Some (snd (Close_finish s)) else None)"
| "fire w Serve_start s =
     (if serve_at s = S_start then Some (serve_start s) else None)"
| "fire w Serve_select s =
     (if serve_at s = S_select then Some (serve_select s) else None)"
| "fire w Serve_read s =
     (if serve_at s = S_read
      then (case ReadFromUDP s of None \<Rightarrow> None | Some (r, s1) \<Rightarrow> Some (serve_read r s1))
      else None)"
| "fire w Serve_send s =
     (case serve_at s of S_send d \<Rightarrow> serve_send d s | _ \<Rightarrow> None)"
| "fire w Parser_done s =
     (if parser_at s = P_select \<and> done_ch s = Some ChanClosed
      then Some (s\<lparr>wg := wg s - 1, parser_at := P_off\<rparr>) else None)"
| "fire w (Parser_buf now) s =
     (if parser_at s = P_select
      then (case parserChan s of
              [] \<Rightarrow> None
            | buf # rest \<Rightarrow> Some (parser_decode w now buf (s\<lparr>parserChan := rest\<rparr>)))
      else None)"
| "fire w Parser_send s =
     (case parser_at s of
        P_forward points (p # rest) \<Rightarrow> parser_send points p rest s
      | _ \<Rightarrow> None)"
| "fire w Parser_count s =
     (case parser_at s of
        P_forward points [] \<Rightarrow> Some (parser_count points s)
      | _ \<Rightarrow> None)"
| "fire w Writer_batch s =
     (if writer_at s = W_select
      then (case pb_out (batcher s) of
              [] \<Rightarrow> None
            | batch # rest \<Rightarrow>
                Some (s\<lparr>batcher := (batcher s)\<lparr>pb_out := rest\<rparr>, writer_at := W_rlock batch\<rparr>))
      else None)"
| "fire w Writer_done s =
     (if writer_at s = W_select \<and> done_ch s = Some ChanClosed
      then Some (s\<lparr>wg := wg s - 1, writer_at := W_off\<rparr>) else None)"
| "fire w Writer_rlock s =
     (case writer_at s of
        W_rlock batch \<Rightarrow>
          (if close_at s = C_idle
           then Some (s\<lparr>writer_at := (if ready s then W_write batch else W_create batch)\<rparr>)
           else None)
      | _ \<Rightarrow> None)"
| "fire w Writer_create s =
     (case writer_at s of
        W_create batch \<Rightarrow>
          (case call_CreateDatabase w s of
             (Some err, s1) \<Rightarrow>
               Some ((notify (CreateInternalStorageFailure (Database (config s1)) err) s1)
                        \<lparr>writer_at := W_select\<rparr>)
           | (None, s1) \<Rightarrow> Some (s1\<lparr>writer_at := W_lock batch\<rparr>))
      | _ \<Rightarrow> None)"
| "fire w Writer_lock s =
     (case writer_at s of
        W_lock batch \<Rightarrow>
          (if close_at s = C_idle then Some (s\<lparr>ready := True, writer_at := W_write batch\<rparr>)
           else None)
      | _ \<Rightarrow> None)"
| "fire w Writer_write s =
     (case writer_at s of
        W_write batch \<Rightarrow> Some ((write_batch w batch s)\<lparr>writer_at := W_select\<rparr>)
      | _ \<Rightarrow> None)"
| "fire w (Net_deliver r) s =
     (if conn s = Some ConnOpen then Some (s\<lparr>net_in := net_in s @ [r]\<rparr>) else None)"
| "fire w Batcher_timeout s =
     Some (s\<lparr>batcher := batcher_timeout (batcher s)\<rparr>)"

text \<open>An execution: the actions in order, \<open>None\<close> when one of them is not enabled.\<close>

fun run :: "world \<Rightarrow> action list \<Rightarrow> Service \<Rightarrow> Service option" where
  "run w [] s = Some s"
| "run w (a # as) s = (case fire w a s of None \<Rightarrow> None | Some t \<Rightarrow> run w as t)"

subsection \<open>A concrete setting\<close>

text \<open>
  A configuration and collaborators to run the service on: the decoder rejects the empty
  datagram and makes one point of every byte of any other; creating the database fails on
  the first \<open>m\<close> calls and writing on the first \<open>n\<close>.
\<close>

definition example_config :: Config where
  "example_config =
     \<lparr>BindAddress = '':8089'', Database = ''udp'', RetentionPolicy = '''', BatchSize = 5,
      BatchPending = 10, BatchTimeout = 1000, ReadBuffer = 0, Precision = ''n''\<rparr>"

definition example_world :: "nat \<Rightarrow> nat \<Rightarrow> world" where
  "example_world m n =
     \<lparr>WithDefaults = (\<lambda>c. c),
      ResolveUDPAddr = (\<lambda>a. Inr a),
      ListenUDP = (\<lambda>a. None),
      SetReadBuffer = (\<lambda>k. None),
      ParsePointsWithPrecision =
        (\<lambda>buf now prec. if buf = [] then Inl (ErrExternal ''unable to parse'')
                         else Inr (map (\<lambda>b. Point ''m'' [] [] (now + uint b)) buf)),
      CreateDatabase = (\<lambda>k name. if k < m then Some (ErrExternal ''create failed'') else None),
      WritePointsPrivileged =
        (\<lambda>k db rp cl batch. if k < n then Some (ErrExternal ''write failed'') else None)\<rparr>"

text \<open>Where the four goroutines stand, and the wait group.\<close>

definition lifecycle :: "Service \<Rightarrow> close_pc \<times> serve_pc \<times> parser_pc \<times> writer_pc \<times> int" where
  "lifecycle s = (close_at s, serve_at s, parser_at s, writer_at s, wg s)"

text \<open>Every point the batcher holds, in the order in which it received them.\<close>

definition batched :: "PointBatcher \<Rightarrow> point list" where
  "batched b = concat (pb_out b) @ pb_buf b"

text \<open>The example service with a sink, opened; and after its first batch has been written.\<close>

definition opened :: Service where
  "opened = snd (Open (example_world 0 0) (With (NewService (example_world 0 0) example_config)))"

definition ready_service :: Service where
  "ready_service = writer_batch (example_world 0 0) [Point ''m'' [] [] 0] opened"

text \<open>
  The state an execution leads to (the state it starts in, should it not be possible), and
  the start of an execution that leaves the two points of one datagram in the batcher.
\<close>

definition after :: "world \<Rightarrow> action list \<Rightarrow> Service \<Rightarrow> Service" where
  "after w as s = (case run w as s of None \<Rightarrow> s | Some t \<Rightarrow> t)"

definition points_buffered :: "action list" where
  "points_buffered =
     [Call_With, Call_Open, Serve_start, Serve_select, Net_deliver (Inr [1, 2]), Serve_read,
      Serve_send, Parser_buf 10, Parser_send, Parser_send, Parser_count]"

text \<open>The writer is between the fast path that found the flag clear and its call of \<open>CreateDatabase\<close>.\<close>

definition creating :: "Service \<Rightarrow> bool" where
  "creating s = (case writer_at s of W_create batch \<Rightarrow> True | _ \<Rightarrow> False)"

text \<open>
  A first life that writes one batch and buffers a third point, and a shutdown and second
  life in which the batch flushed by \<open>Close\<close> is written.
\<close>

definition first_life :: "action list" where
  "first_life =
     points_buffered @
     [Batcher_timeout, Writer_batch, Writer_rlock, Writer_create, Writer_lock, Writer_write,
      Net_deliver (Inr [3]), Serve_select, Serve_read, Serve_send, Parser_buf 20, Parser_send,
      Parser_count]"

definition shutdown :: "action list" where
  "shutdown =
     [Call_Close, Do_Close_conn, Do_Close_flush, Writer_done, Parser_done, Serve_select,
      Do_Close_finish]"

definition second_life :: "action list" where
  "second_life = shutdown @ [Call_Open, Writer_batch, Writer_rlock, Writer_write]"

text \<open>What a shutdown is judged by, and the actions of a list that are enabled in a state.\<close>

definition shutdown_view ::
  "Service \<Rightarrow> (close_pc \<times> serve_pc \<times> parser_pc \<times> writer_pc \<times> int) \<times> bool \<times> point list \<times>
     point list list \<times> (string \<times> string \<times> ConsistencyLevel \<times> point list) list" where
  "shutdown_view s = (lifecycle s, closed s, pb_buf (batcher s), pb_out (batcher s), writes s)"

definition enabled :: "world \<Rightarrow> action list \<Rightarrow> Service \<Rightarrow> action list" where
  "enabled w as s = filter (\<lambda>a. fire w a s \<noteq> None) as"

definition serve_actions :: "action list" where
  "serve_actions = [Serve_start, Serve_select, Serve_read, Serve_send]"

definition writer_actions :: "action list" where
  "writer_actions =
     [Writer_batch, Writer_done, Writer_rlock, Writer_create, Writer_lock, Writer_write]"

definition serve_view ::
  "world \<Rightarrow> Service \<Rightarrow> chan option \<times> UDPConn option \<times> serve_pc \<times> action list \<times> int64 \<times>
     diag_event list option" where
  "serve_view w s =
     (done_ch s, conn s, serve_at s, enabled w serve_actions s, ReadFail (stats s),
      Diagnostic s)"

text \<open>A receiver that has passed its check and waits in the read when \<open>Close\<close> begins.\<close>

definition receiver_waiting :: "action list" where
  "receiver_waiting = [Call_With, Call_Open, Serve_start, Serve_select, Call_Close]"

text \<open>
  The workers that have not returned; the writer at one of the two lock operations of
  \<open>createInternalStorage\<close>; and what holds of every state the service can be in: the wait
  group counts the running workers, none runs while \<open>done\<close> is nil, and \<open>done\<close> is a closed
  channel only inside \<open>Close\<close>.
\<close>

definition running :: "Service \<Rightarrow> int" where
  "running s =
     (if serve_at s = S_off then 0 else 1) + (if parser_at s = P_off then 0 else 1) +
     (if writer_at s = W_off then 0 else 1)"

definition wants_mu :: "Service \<Rightarrow> bool" where
  "wants_mu s =
     (case writer_at s of W_rlock batch \<Rightarrow> True | W_lock batch \<Rightarrow> True | _ \<Rightarrow> False)"

definition consistent :: "Service \<Rightarrow> bool" where
  "consistent s =
     (wg s = running s \<and> (done_ch s = None \<longrightarrow> running s = 0) \<and>
      (close_at s = C_idle \<longrightarrow> done_ch s \<noteq> Some ChanClosed))"

text \<open>The fields that \<open>consistent\<close> reads.\<close>

definition ctl :: "Service \<Rightarrow> int \<times> chan option \<times> close_pc \<times> bool \<times> bool \<times> bool" where
  "ctl s =
     (wg s, done_ch s, close_at s, serve_at s = S_off, parser_at s = P_off, writer_at s = W_off)"

text \<open>
  The example configuration with batches of one point and room for one pending batch, and
  with no bound on the pending batches; what the parser is judged by; and an execution in which the parser has decoded four points and
  \<open>Close\<close> begins and the writer returns while it forwards them.
\<close>

definition small_config :: Config where
  "small_config = example_config\<lparr>BatchSize := 1, BatchPending := 1\<rparr>"

definition unbounded_config :: Config where
  "unbounded_config = example_config\<lparr>BatchPending := 0\<rparr>"

definition parser_actions :: "action list" where
  "parser_actions = [Parser_done, Parser_buf 0, Parser_send, Parser_count]"

definition parser_view ::
  "world \<Rightarrow> Service \<Rightarrow> parser_pc \<times> point list \<times> int64 \<times> int64 \<times> action list" where
  "parser_view w s =
     (parser_at s, batched (batcher s), PointsReceived (stats s), PointsParseFail (stats s),
      enabled w parser_actions s)"

definition parser_interrupted :: "action list" where
  "parser_interrupted =
     [Call_With, Call_Open, Serve_start, Serve_select, Net_deliver (Inr [1, 2, 3, 4]),
      Serve_read, Serve_send, Parser_buf 10, Parser_send, Parser_send, Call_Close,
      Do_Close_conn, Do_Close_flush, Writer_done, Parser_send]"

text \<open>
  The parser waits in a send on a saturated batcher that has been flushed, the writer has
  returned and \<open>Close\<close> waits for the workers.
\<close>

definition parser_stuck :: "Service \<Rightarrow> bool" where
  "parser_stuck s =
     (close_at s = C_wait \<and> writer_at s = W_off \<and> pb_flushed (batcher s) \<and>
      batcher_saturated (batcher s) \<and>
      (case parser_at s of P_forward points (p # rest) \<Rightarrow> True | _ \<Rightarrow> False))"

text \<open>Two datagrams queued for the parser of the example: an empty one and one of three bytes.\<close>

definition two_datagrams :: "action list" where
  "two_datagrams =
     [Call_With, Call_Open, Serve_start, Serve_select, Net_deliver (Inr []), Serve_read,
      Serve_send, Net_deliver (Inr [1, 2, 3]), Serve_select, Serve_read, Serve_send]"

section \<open>Properties\<close>

lemmas batcher_defs =
  NewPointBatcher_def batcher_emit_def batcher_Start_def batcher_full_def batcher_room_def
  batcher_saturated_def batcher_In_def batcher_timeout_def batcher_Flush_def

lemmas service_defs =
  NewService_def With_def notify_def closed_def Open_def Close_enter_def Close_conn_def
  Close_flush_def Close_finish_def ReadFromUDP_def serve_start_def serve_select_def
  serve_read_def serve_send_def parser_decode_def parser_send_def parser_count_def
  call_CreateDatabase_def
  createInternalStorage_def write_batch_def writer_batch_def writer_batches_def
  parserChanLen_def MaxUDPPayload_def Ready_def Statistics_Values_def lifecycle_def
  after_def points_buffered_def

lemmas example_defs = example_config_def example_world_def

section \<open>Open and Close\<close>

lemma Open_when_open: "\<not> closed s \<Longrightarrow> Open w s = (None, s)"
  by (simp add: Open_def)

lemma Open_result_not_closed: "closed s \<Longrightarrow> \<not> closed (snd (Open w s))"
  by (simp add: Open_def closed_def notify_def Let_def split: sum.splits option.splits)

lemma closed_after_Close_finish: "closed (snd (Close_finish s))"
  by (simp add: Close_finish_def closed_def notify_def split: option.splits)

text \<open>
  C6. \<open>Open\<close> on a service that is open returns nil and leaves every field as it was: no
  socket is bound, the wait group and the workers are untouched. \<open>Close\<close> on a service that
  is closed does the same, also on the service \<open>NewService\<close> returns and on the one a
  completed \<open>Close\<close> leaves. So a second \<open>Open\<close> after one that returned nil, and a second
  \<open>Close\<close>, are no-ops. The call goes through when \<open>s.mu\<close> is free.
\<close>

theorem Open_Close_idempotent:
  "(\<not> closed s \<longrightarrow>
      Open w s = (None, s) \<and>
      fire w Call_Open s = (if close_at s = C_idle then Some s else None)) \<and>
   (closed s \<longrightarrow>
      Close_enter s = (Some None, s) \<and>
      fire w Call_Close s = (if close_at s = C_idle then Some s else None)) \<and>
   (fst (Open w s) = None \<longrightarrow> Open w (snd (Open w s)) = (None, snd (Open w s))) \<and>
   Close_enter (snd (Close_finish s)) = (Some None, snd (Close_finish s)) \<and>
   Close_enter (NewService w c) = (Some None, NewService w c)"
proof -
  have a: "\<not> closed s \<longrightarrow>
      Open w s = (None, s) \<and>
      fire w Call_Open s = (if close_at s = C_idle then Some s else None)"
    by (simp add: Open_when_open)
  have b: "closed s \<longrightarrow>
      Close_enter s = (Some None, s) \<and>
      fire w Call_Close s = (if close_at s = C_idle then Some s else None)"
    by (simp add: Close_enter_def)
  have c: "fst (Open w s) = None \<longrightarrow> Open w (snd (Open w s)) = (None, snd (Open w s))"
  proof (cases "closed s")
    case True
    then show ?thesis using Open_result_not_closed [of s w] by (simp add: Open_when_open)
  next
    case False
    then show ?thesis by (simp add: Open_when_open)
  qed
  have d: "Close_enter (snd (Close_finish s)) = (Some None, snd (Close_finish s))"
    using closed_after_Close_finish [of s] by (simp add: Close_enter_def)
  have e: "Close_enter (NewService w c) = (Some None, NewService w c)"
    by (simp add: Close_enter_def closed_def NewService_def Let_def)
  from a b c d e show ?thesis by blast
qed

text \<open>On the example: the new service is closed, \<open>Open\<close> starts it, a second \<open>Open\<close> changes nothing.\<close>

theorem Open_Close_idempotent_witness:
  "closed (NewService (example_world 0 0) example_config) \<and>
   fst (Open (example_world 0 0) (NewService (example_world 0 0) example_config)) = None \<and>
   \<not> closed (snd (Open (example_world 0 0) (NewService (example_world 0 0) example_config))) \<and>
   Close_enter (NewService (example_world 0 0) example_config) =
     (Some None, NewService (example_world 0 0) example_config) \<and>
   Open (example_world 0 0)
        (snd (Open (example_world 0 0) (NewService (example_world 0 0) example_config))) =
     (None, snd (Open (example_world 0 0) (NewService (example_world 0 0) example_config))) \<and>
   lifecycle (snd (Open (example_world 0 0) (NewService (example_world 0 0) example_config))) =
     (C_idle, S_start, P_select, W_select, 3)"
proof -
  let ?w = "example_world 0 0"
  let ?s = "NewService ?w example_config"
  have h1: "closed ?s"
    by (simp add: service_defs batcher_defs example_defs)
  have h2: "fst (Open ?w ?s) = None"
    by (simp add: service_defs batcher_defs example_defs)
  have h3: "\<not> closed (snd (Open ?w ?s))"
    by (simp add: service_defs batcher_defs example_defs)
  have h4: "lifecycle (snd (Open ?w ?s)) = (C_idle, S_start, P_select, W_select, 3)"
    by (simp add: service_defs batcher_defs example_defs)
  from h1 h2 h3 h4 Open_Close_idempotent [of ?s ?w] Open_Close_idempotent [of "snd (Open ?w ?s)" ?w]
  show ?thesis by blast
qed

section \<open>A failed Open\<close>

text \<open>
  C5. With an empty bind address \<open>Open\<close> returns its error, binds nothing and starts
  nothing, but line 92 has already replaced the nil \<open>done\<close> by a fresh channel: the service
  that was closed before the call is not closed after it, and a second \<open>Open\<close> returns nil.
\<close>

theorem failed_Open_reports_open:
  "fst (Open (example_world 0 0)
          (NewService (example_world 0 0) (example_config\<lparr>BindAddress := ''''\<rparr>))) =
     Some (ErrNew ''bind address has to be specified in config'') \<and>
   closed (NewService (example_world 0 0) (example_config\<lparr>BindAddress := ''''\<rparr>)) \<and>
   \<not> closed (snd (Open (example_world 0 0)
                 (NewService (example_world 0 0) (example_config\<lparr>BindAddress := ''''\<rparr>)))) \<and>
   snd (Open (example_world 0 0)
          (NewService (example_world 0 0) (example_config\<lparr>BindAddress := ''''\<rparr>))) =
     (NewService (example_world 0 0) (example_config\<lparr>BindAddress := ''''\<rparr>))
       \<lparr>done_ch := Some ChanOpen\<rparr> \<and>
   fst (Open (example_world 0 0)
          (snd (Open (example_world 0 0)
             (NewService (example_world 0 0) (example_config\<lparr>BindAddress := ''''\<rparr>))))) = None"
  by (simp add: service_defs batcher_defs example_defs)


section \<open>Writer\<close>

lemma notify_fields:
  "stats (notify ev s) = stats s" "writes (notify ev s) = writes s"
  "batcher (notify ev s) = batcher s" "ready (notify ev s) = ready s"
  "meta_calls (notify ev s) = meta_calls s" "config (notify ev s) = config s"
  "Diagnostic (notify ev s) = map_option (\<lambda>seen. seen @ [ev]) (Diagnostic s)"
  by (simp_all add: notify_def split: option.splits)

lemma write_batch_fields:
  "writes (write_batch w batch s) =
     writes s @ [(Database (config s), RetentionPolicy (config s), ConsistencyLevelAny, batch)]"
  "batcher (write_batch w batch s) = batcher s"
  "ready (write_batch w batch s) = ready s"
  "meta_calls (write_batch w batch s) = meta_calls s"
  "config (write_batch w batch s) = config s"
  by (simp_all add: write_batch_def Let_def notify_fields split: option.splits)

lemma writer_batch_ready: "ready s \<Longrightarrow> writer_batch w batch s = write_batch w batch s"
  by (simp add: writer_batch_def createInternalStorage_def)

lemma writer_batches_Nil: "writer_batches w [] s = s"
  by (simp add: writer_batches_def)

lemma writer_batches_Cons:
  "writer_batches w (b # bs) s = writer_batches w bs (writer_batch w b s)"
  by (simp add: writer_batches_def)

lemma writer_batches_ready:
  "ready s \<Longrightarrow>
     ready (writer_batches w batches s) \<and>
     config (writer_batches w batches s) = config s \<and>
     meta_calls (writer_batches w batches s) = meta_calls s \<and>
     writes (writer_batches w batches s) =
       writes s @ map (\<lambda>b. (Database (config s), RetentionPolicy (config s),
                             ConsistencyLevelAny, b)) batches"
proof (induction batches arbitrary: s)
  case Nil
  then show ?case by (simp add: writer_batches_Nil)
next
  case (Cons b bs)
  let ?t = "write_batch w b s"
  from Cons.prems have step: "writer_batch w b s = ?t"
    by (rule writer_batch_ready)
  from Cons.prems have "ready ?t"
    by (simp add: write_batch_fields)
  from Cons.IH [OF this] show ?case
    by (simp add: writer_batches_Cons step write_batch_fields)
qed

text \<open>
  C9. The write of one batch (lines 173 to 181). When the backend fails, \<open>BatchesTransmitFail\<close>
  is raised by one and no other counter changes, so \<open>BatchesTransmitted\<close> and
  \<open>PointsTransmitted\<close> are as before, and the sink, if there is one, is told. When it
  succeeds, \<open>BatchesTransmitted\<close> is raised by one and \<open>PointsTransmitted\<close> by the length of the
  batch (in 64-bit arithmetic), and nothing else. Either way the backend has been called
  exactly once for the batch, the batch is not put back, and the writer is at its select
  again. A writer whose storage is ready attempts every batch it receives, in order, whatever
  became of the earlier ones.
\<close>

theorem write_outcome:
  "(WritePointsPrivileged w (length (writes s)) (Database (config s))
       (RetentionPolicy (config s)) ConsistencyLevelAny batch = Some err \<longrightarrow>
      stats (write_batch w batch s) =
        (stats s)\<lparr>BatchesTransmitFail := BatchesTransmitFail (stats s) + 1\<rparr> \<and>
      BatchesTransmitted (stats (write_batch w batch s)) = BatchesTransmitted (stats s) \<and>
      PointsTransmitted (stats (write_batch w batch s)) = PointsTransmitted (stats s) \<and>
      Diagnostic (write_batch w batch s) =
        map_option (\<lambda>seen. seen @ [PointWriterError (Database (config s)) err])
          (Diagnostic s)) \<and>
   (WritePointsPrivileged w (length (writes s)) (Database (config s))
       (RetentionPolicy (config s)) ConsistencyLevelAny batch = None \<longrightarrow>
      stats (write_batch w batch s) =
        (stats s)\<lparr>BatchesTransmitted := BatchesTransmitted (stats s) + 1,
                  PointsTransmitted := PointsTransmitted (stats s) + of_nat (length batch)\<rparr> \<and>
      BatchesTransmitFail (stats (write_batch w batch s)) = BatchesTransmitFail (stats s) \<and>
      Diagnostic (write_batch w batch s) = Diagnostic s) \<and>
   writes (write_batch w batch s) =
     writes s @ [(Database (config s), RetentionPolicy (config s), ConsistencyLevelAny, batch)] \<and>
   batcher (write_batch w batch s) = batcher s \<and>
   (writer_at s = W_write batch \<longrightarrow>
      fire w Writer_write s = Some ((write_batch w batch s)\<lparr>writer_at := W_select\<rparr>)) \<and>
   (ready s \<longrightarrow>
      writes (writer_batches w batches s) =
        writes s @ map (\<lambda>b. (Database (config s), RetentionPolicy (config s),
                              ConsistencyLevelAny, b)) batches)"
proof -
  have bad: "WritePointsPrivileged w (length (writes s)) (Database (config s))
       (RetentionPolicy (config s)) ConsistencyLevelAny batch = Some err \<longrightarrow>
      stats (write_batch w batch s) =
        (stats s)\<lparr>BatchesTransmitFail := BatchesTransmitFail (stats s) + 1\<rparr> \<and>
      BatchesTransmitted (stats (write_batch w batch s)) = BatchesTransmitted (stats s) \<and>
      PointsTransmitted (stats (write_batch w batch s)) = PointsTransmitted (stats s) \<and>
      Diagnostic (write_batch w batch s) =
        map_option (\<lambda>seen. seen @ [PointWriterError (Database (config s)) err])
          (Diagnostic s)"
    by (simp add: write_batch_def Let_def notify_fields)
  have ok: "WritePointsPrivileged w (length (writes s)) (Database (config s))
       (RetentionPolicy (config s)) ConsistencyLevelAny batch = None \<longrightarrow>
      stats (write_batch w batch s) =
        (stats s)\<lparr>BatchesTransmitted := BatchesTransmitted (stats s) + 1,
                  PointsTransmitted := PointsTransmitted (stats s) + of_nat (length batch)\<rparr> \<and>
      BatchesTransmitFail (stats (write_batch w batch s)) = BatchesTransmitFail (stats s) \<and>
      Diagnostic (write_batch w batch s) = Diagnostic s"
    by (simp add: write_batch_def Let_def)
  have loop: "writer_at s = W_write batch \<longrightarrow>
      fire w Writer_write s = Some ((write_batch w batch s)\<lparr>writer_at := W_select\<rparr>)"
    by simp
  have later: "ready s \<longrightarrow>
      writes (writer_batches w batches s) =
        writes s @ map (\<lambda>b. (Database (config s), RetentionPolicy (config s),
                              ConsistencyLevelAny, b)) batches"
    using writer_batches_ready [of s w batches] by simp
  from bad ok loop later show ?thesis
    by (simp add: write_batch_fields)
qed

text \<open>On the example: a write that fails, one that succeeds, and two batches in a row.\<close>

theorem write_outcome_witness:
  "WritePointsPrivileged (example_world 0 2) (length (writes ready_service))
     (Database (config ready_service)) (RetentionPolicy (config ready_service))
     ConsistencyLevelAny [Point ''m'' [] [] 1] = Some (ErrExternal ''write failed'') \<and>
   Statistics_Values (write_batch (example_world 0 2) [Point ''m'' [] [] 1] ready_service) =
     [(''pointsRx'', 0), (''bytesRx'', 0), (''pointsParseFail'', 0), (''readFail'', 0),
      (''batchesTx'', 1), (''pointsTx'', 1), (''batchesTxFail'', 1)] \<and>
   Diagnostic (write_batch (example_world 0 2) [Point ''m'' [] [] 1] ready_service) =
     Some [Started '':8089'', PointWriterError ''udp'' (ErrExternal ''write failed'')] \<and>
   WritePointsPrivileged (example_world 0 0) (length (writes ready_service))
     (Database (config ready_service)) (RetentionPolicy (config ready_service))
     ConsistencyLevelAny [Point ''m'' [] [] 1, Point ''m'' [] [] 2] = None \<and>
   Statistics_Values
     (write_batch (example_world 0 0) [Point ''m'' [] [] 1, Point ''m'' [] [] 2] ready_service) =
     [(''pointsRx'', 0), (''bytesRx'', 0), (''pointsParseFail'', 0), (''readFail'', 0),
      (''batchesTx'', 2), (''pointsTx'', 3), (''batchesTxFail'', 0)] \<and>
   writer_at (ready_service\<lparr>writer_at := W_write [Point ''m'' [] [] 1]\<rparr>) =
     W_write [Point ''m'' [] [] 1] \<and>
   map_option writer_at
     (fire (example_world 0 2) Writer_write
        (ready_service\<lparr>writer_at := W_write [Point ''m'' [] [] 1]\<rparr>)) = Some W_select \<and>
   ready ready_service \<and>
   writes (writer_batches (example_world 0 2)
             [[Point ''m'' [] [] 1], [Point ''m'' [] [] 2]] ready_service) =
     [(''udp'', '''', ConsistencyLevelAny, [Point ''m'' [] [] 0]),
      (''udp'', '''', ConsistencyLevelAny, [Point ''m'' [] [] 1]),
      (''udp'', '''', ConsistencyLevelAny, [Point ''m'' [] [] 2])]"
proof -
  let ?p = "[Point ''m'' [] [] 1]"
  let ?q = "[Point ''m'' [] [] 1, Point ''m'' [] [] 2]"
  let ?s = "ready_service\<lparr>writer_at := W_write ?p\<rparr>"
  have s0: "writes ready_service = [(''udp'', '''', ConsistencyLevelAny, [Point ''m'' [] [] 0])] \<and>
            ready ready_service \<and>
            config ready_service = example_config \<and>
            Diagnostic ready_service = Some [Started '':8089''] \<and>
            stats ready_service =
              \<lparr>PointsReceived = 0, BytesReceived = 0, PointsParseFail = 0, ReadFail = 0,
               BatchesTransmitted = 1, PointsTransmitted = 1, BatchesTransmitFail = 0\<rparr>"
    by (simp add: ready_service_def opened_def service_defs batcher_defs example_defs)
  have h1: "WritePointsPrivileged (example_world 0 2) (length (writes ready_service))
     (Database (config ready_service)) (RetentionPolicy (config ready_service))
     ConsistencyLevelAny ?p = Some (ErrExternal ''write failed'')"
    using s0 by (simp add: example_defs)
  have h2: "WritePointsPrivileged (example_world 0 0) (length (writes ready_service))
     (Database (config ready_service)) (RetentionPolicy (config ready_service))
     ConsistencyLevelAny ?q = None"
    by (simp add: example_defs)
  have h3: "writer_at ?s = W_write ?p"
    by simp
  from s0 h1 h2 h3
    write_outcome [of "example_world 0 2" ready_service ?p "ErrExternal ''write failed''"
                      "[[Point ''m'' [] [] 1], [Point ''m'' [] [] 2]]"]
    write_outcome [of "example_world 0 0" ready_service ?q]
    write_outcome [of "example_world 0 2" ?s ?p]
  show ?thesis
    by (simp add: Statistics_Values_def example_config_def)
qed

section \<open>Lazy initialisation\<close>

lemma createInternalStorage_ready: "ready s \<Longrightarrow> createInternalStorage w s = (None, s)"
  by (simp add: createInternalStorage_def)

lemma createInternalStorage_not_ready:
  "\<not> ready s \<Longrightarrow>
     fst (createInternalStorage w s) =
       CreateDatabase w (length (meta_calls s)) (Database (config s)) \<and>
     snd (createInternalStorage w s) =
       s\<lparr>meta_calls := meta_calls s @ [Database (config s)],
         ready := (CreateDatabase w (length (meta_calls s)) (Database (config s)) = None)\<rparr>"
  by (simp add: createInternalStorage_def call_CreateDatabase_def split: option.splits)

lemma writer_batch_meta_calls:
  "meta_calls (writer_batch w batch s) =
     (if ready s then meta_calls s else meta_calls s @ [Database (config s)])"
  by (simp add: writer_batch_def createInternalStorage_def call_CreateDatabase_def
        write_batch_fields notify_fields split: option.splits)

lemma writer_batch_sets_ready:
  "ready (writer_batch w batch s) =
     (ready s \<or> CreateDatabase w (length (meta_calls s)) (Database (config s)) = None)"
  by (simp add: writer_batch_def createInternalStorage_def call_CreateDatabase_def
        write_batch_fields notify_fields split: option.splits)

text \<open>No step but the one under the exclusive lock changes the flag.\<close>

lemma Open_ready: "ready (snd (Open w s)) = ready s"
  by (simp add: Open_def Let_def notify_fields split: sum.splits option.splits)

lemma fire_ready:
  "fire w a s = Some t \<Longrightarrow> ready t = (ready s \<or> a = Writer_lock)"
proof (cases a)
  case Call_With
  assume "fire w a s = Some t"
  with Call_With show ?thesis by (auto simp: With_def)
next
  case Call_Open
  assume "fire w a s = Some t"
  with Call_Open show ?thesis by (auto simp: Open_ready split: if_splits)
next
  case Call_Close
  assume "fire w a s = Some t"
  with Call_Close show ?thesis by (auto simp: Close_enter_def split: if_splits)
next
  case Do_Close_conn
  assume "fire w a s = Some t"
  with Do_Close_conn show ?thesis by (auto simp: Close_conn_def split: if_splits option.splits)
next
  case Do_Close_flush
  assume "fire w a s = Some t"
  with Do_Close_flush show ?thesis by (auto simp: Close_flush_def split: if_splits)
next
  case Do_Close_finish
  assume "fire w a s = Some t"
  with Do_Close_finish show ?thesis
    by (auto simp: Close_finish_def notify_fields split: if_splits)
next
  case Serve_start
  assume "fire w a s = Some t"
  with Serve_start show ?thesis by (auto simp: serve_start_def split: if_splits)
next
  case Serve_select
  assume "fire w a s = Some t"
  with Serve_select show ?thesis by (auto simp: serve_select_def split: if_splits)
next
  case Serve_read
  assume "fire w a s = Some t"
  with Serve_read show ?thesis
    by (auto simp: ReadFromUDP_def serve_read_def notify_fields
          split: if_splits option.splits UDPConn.splits list.splits sum.splits)
next
  case Serve_send
  assume "fire w a s = Some t"
  with Serve_send show ?thesis
    by (auto simp: serve_send_def split: if_splits serve_pc.splits)
next
  case Parser_done
  assume "fire w a s = Some t"
  with Parser_done show ?thesis by (auto split: if_splits)
next
  case (Parser_buf now)
  assume "fire w a s = Some t"
  with Parser_buf show ?thesis
    by (auto simp: parser_decode_def notify_fields split: if_splits list.splits sum.splits)
next
  case Parser_send
  assume "fire w a s = Some t"
  with Parser_send show ?thesis
    by (auto simp: parser_send_def split: parser_pc.splits list.splits option.splits)
next
  case Parser_count
  assume "fire w a s = Some t"
  with Parser_count show ?thesis
    by (auto simp: parser_count_def split: parser_pc.splits list.splits)
next
  case Writer_batch
  assume "fire w a s = Some t"
  with Writer_batch show ?thesis by (auto split: if_splits list.splits)
next
  case Writer_done
  assume "fire w a s = Some t"
  with Writer_done show ?thesis by (auto split: if_splits)
next
  case Writer_rlock
  assume "fire w a s = Some t"
  with Writer_rlock show ?thesis by (auto split: if_splits writer_pc.splits)
next
  case Writer_create
  assume "fire w a s = Some t"
  with Writer_create show ?thesis
    by (auto simp: call_CreateDatabase_def notify_fields
          split: if_splits writer_pc.splits option.splits)
next
  case Writer_lock
  assume "fire w a s = Some t"
  with Writer_lock show ?thesis by (auto split: if_splits writer_pc.splits)
next
  case Writer_write
  assume "fire w a s = Some t"
  with Writer_write show ?thesis
    by (auto simp: write_batch_fields split: if_splits writer_pc.splits)
next
  case (Net_deliver r)
  assume "fire w a s = Some t"
  with Net_deliver show ?thesis by (auto split: if_splits)
next
  case Batcher_timeout
  assume "fire w a s = Some t"
  with Batcher_timeout show ?thesis by auto
qed

lemma fire_Writer_lock:
  "fire w Writer_lock s = Some t \<Longrightarrow> close_at s = C_idle \<and> (\<exists>batch. writer_at s = W_lock batch)"
  by (auto split: writer_pc.splits if_splits)

text \<open>
  C2. \<open>createInternalStorage\<close>: with the flag set it returns nil and calls nothing. With the
  flag clear it calls \<open>CreateDatabase\<close> exactly once, returns what the call returned, and
  the flag afterwards is set exactly when the call succeeded. So for each batch the writer
  handles, the call is made exactly when the flag was clear (on the first batch of a new
  service it is), a failure leaves the flag clear for the next batch, and once the flag is
  set no sequence of batches makes a call. In the steps, the flag changes only in the one
  that holds \<open>s.mu\<close> exclusively (line 317), and only to true.
\<close>

theorem lazy_initialisation:
  "(ready s \<longrightarrow> createInternalStorage w s = (None, s)) \<and>
   (\<not> ready s \<longrightarrow>
      fst (createInternalStorage w s) =
        CreateDatabase w (length (meta_calls s)) (Database (config s)) \<and>
      meta_calls (snd (createInternalStorage w s)) = meta_calls s @ [Database (config s)] \<and>
      ready (snd (createInternalStorage w s)) =
        (CreateDatabase w (length (meta_calls s)) (Database (config s)) = None)) \<and>
   meta_calls (writer_batch w batch s) =
     (if ready s then meta_calls s else meta_calls s @ [Database (config s)]) \<and>
   ready (writer_batch w batch s) =
     (ready s \<or> CreateDatabase w (length (meta_calls s)) (Database (config s)) = None) \<and>
   (ready s \<longrightarrow>
      ready (writer_batches w batches s) \<and>
      meta_calls (writer_batches w batches s) = meta_calls s) \<and>
   meta_calls (writer_batch w batch (NewService w c)) = [Database (WithDefaults w c)] \<and>
   (\<forall>a t. fire w a s = Some t \<and> ready t \<noteq> ready s \<longrightarrow>
      a = Writer_lock \<and> close_at s = C_idle \<and> ready t)"
proof -
  have fast: "ready s \<longrightarrow> createInternalStorage w s = (None, s)"
    by (simp add: createInternalStorage_ready)
  have slow: "\<not> ready s \<longrightarrow>
      fst (createInternalStorage w s) =
        CreateDatabase w (length (meta_calls s)) (Database (config s)) \<and>
      meta_calls (snd (createInternalStorage w s)) = meta_calls s @ [Database (config s)] \<and>
      ready (snd (createInternalStorage w s)) =
        (CreateDatabase w (length (meta_calls s)) (Database (config s)) = None)"
    by (simp add: createInternalStorage_not_ready)
  have after: "ready s \<longrightarrow>
      ready (writer_batches w batches s) \<and>
      meta_calls (writer_batches w batches s) = meta_calls s"
    using writer_batches_ready [of s w batches] by simp
  have first: "meta_calls (writer_batch w batch (NewService w c)) = [Database (WithDefaults w c)]"
    by (simp add: writer_batch_meta_calls NewService_def Let_def)
  have lock: "\<forall>a t. fire w a s = Some t \<and> ready t \<noteq> ready s \<longrightarrow>
      a = Writer_lock \<and> close_at s = C_idle \<and> ready t"
    using fire_ready fire_Writer_lock by blast
  from fast slow after first lock show ?thesis
    by (simp only: writer_batch_meta_calls writer_batch_sets_ready simp_thms)
qed



text \<open>
  On the example whose \<open>CreateDatabase\<close> fails twice: three batches make three calls, the
  flag is set by the third, two more batches make none.
\<close>

theorem lazy_initialisation_witness:
  "\<not> ready opened \<and>
   fst (createInternalStorage (example_world 2 0) opened) = Some (ErrExternal ''create failed'') \<and>
   meta_calls (snd (createInternalStorage (example_world 2 0) opened)) = [''udp''] \<and>
   \<not> ready (snd (createInternalStorage (example_world 2 0) opened)) \<and>
   meta_calls (writer_batches (example_world 2 0) [[], [], []] opened) =
     [''udp'', ''udp'', ''udp''] \<and>
   ready (writer_batches (example_world 2 0) [[], [], []] opened) \<and>
   meta_calls (writer_batches (example_world 2 0) [[], []]
                 (writer_batches (example_world 2 0) [[], [], []] opened)) =
     [''udp'', ''udp'', ''udp''] \<and>
   createInternalStorage (example_world 2 0)
       (writer_batches (example_world 2 0) [[], [], []] opened) =
     (None, writer_batches (example_world 2 0) [[], [], []] opened) \<and>
   map_option ready
     (run (example_world 0 0)
        (points_buffered @ [Batcher_timeout, Writer_batch, Writer_rlock, Writer_create])
        (NewService (example_world 0 0) example_config)) = Some False \<and>
   map_option ready
     (run (example_world 0 0)
        (points_buffered @ [Batcher_timeout, Writer_batch, Writer_rlock, Writer_create,
                            Writer_lock])
        (NewService (example_world 0 0) example_config)) = Some True"
proof -
  let ?w = "example_world 2 0"
  let ?v = "example_world 0 0"
  let ?s3 = "writer_batches ?w [[], [], []] opened"
  let ?as = "points_buffered @ [Batcher_timeout, Writer_batch, Writer_rlock, Writer_create]"
  let ?l = "after ?v ?as (NewService ?v example_config)"
  have h1: "\<not> ready opened"
    by (simp add: opened_def service_defs batcher_defs example_defs)
  have c0: "meta_calls opened = [] \<and> config opened = example_config"
    by (simp add: opened_def service_defs batcher_defs example_defs)
  have h2: "ready ?s3 \<and> meta_calls ?s3 = [''udp'', ''udp'', ''udp'']"
    by (simp add: opened_def service_defs batcher_defs example_defs)
  have h3: "run ?v ?as (NewService ?v example_config) = Some ?l \<and> \<not> ready ?l"
    by (simp add: service_defs batcher_defs example_defs)
  have h4: "run ?v (?as @ [Writer_lock]) (NewService ?v example_config) =
              fire ?v Writer_lock ?l"
    by (simp add: service_defs batcher_defs example_defs)
  have h5: "fire ?v Writer_lock ?l = Some (after ?v [Writer_lock] ?l) \<and>
            ready (after ?v [Writer_lock] ?l)"
    by (simp add: service_defs batcher_defs example_defs)
  from h1 c0 h2 h3 h4 h5
    lazy_initialisation [of opened ?w "[]" "[]"]
    lazy_initialisation [of ?s3 ?w "[]" "[[], []]"]
    lazy_initialisation [of ?l ?v]
  show ?thesis
    by (simp add: example_defs)
qed


section \<open>A failed initialisation\<close>

text \<open>
  C4, as stated, asks for a storage-init-failure counter. \<open>Statistics\<close> has seven counters and
  none of them moves when \<open>createInternalStorage\<close> fails: on the example the snapshot is the
  same before the failed batch, after it, and after a second one.
\<close>

theorem init_failure_counts_nothing:
  "fst (createInternalStorage (example_world 2 0) opened) = Some (ErrExternal ''create failed'') \<and>
   Statistics_Values opened =
     [(''pointsRx'', 0), (''bytesRx'', 0), (''pointsParseFail'', 0), (''readFail'', 0),
      (''batchesTx'', 0), (''pointsTx'', 0), (''batchesTxFail'', 0)] \<and>
   Statistics_Values (writer_batch (example_world 2 0) [Point ''m'' [] [] 1] opened) =
     [(''pointsRx'', 0), (''bytesRx'', 0), (''pointsParseFail'', 0), (''readFail'', 0),
      (''batchesTx'', 0), (''pointsTx'', 0), (''batchesTxFail'', 0)] \<and>
   stats (writer_batch (example_world 2 0) [Point ''m'' [] [] 1] opened) = stats opened \<and>
   Statistics_Values
     (writer_batches (example_world 2 0) [[Point ''m'' [] [] 1], [Point ''m'' [] [] 2]] opened) =
     [(''pointsRx'', 0), (''bytesRx'', 0), (''pointsParseFail'', 0), (''readFail'', 0),
      (''batchesTx'', 0), (''pointsTx'', 0), (''batchesTxFail'', 0)]"
  by (simp add: opened_def service_defs batcher_defs example_defs)

text \<open>
  C4, amended. For a batch whose initialisation fails, the writer tells the sink, if there is
  one, and does nothing else than record the call: no counter changes, the backend is not
  called, the batch is not put back into the batcher, the flag stays clear; and the writer is
  at its select again, not returned.
\<close>

theorem init_failure_drops_batch:
  "(\<not> ready s \<and>
    CreateDatabase w (length (meta_calls s)) (Database (config s)) = Some err \<longrightarrow>
      writer_batch w batch s =
        notify (CreateInternalStorageFailure (Database (config s)) err)
          (s\<lparr>meta_calls := meta_calls s @ [Database (config s)]\<rparr>) \<and>
      stats (writer_batch w batch s) = stats s \<and>
      Diagnostic (writer_batch w batch s) =
        map_option (\<lambda>seen. seen @ [CreateInternalStorageFailure (Database (config s)) err])
          (Diagnostic s) \<and>
      writes (writer_batch w batch s) = writes s \<and>
      batcher (writer_batch w batch s) = batcher s \<and>
      \<not> ready (writer_batch w batch s)) \<and>
   (writer_at s = W_create batch \<and>
    CreateDatabase w (length (meta_calls s)) (Database (config s)) = Some err \<longrightarrow>
      fire w Writer_create s =
        Some ((notify (CreateInternalStorageFailure (Database (config s)) err)
                 (s\<lparr>meta_calls := meta_calls s @ [Database (config s)]\<rparr>))
                \<lparr>writer_at := W_select\<rparr>))"
proof -
  have drop: "\<not> ready s \<and>
    CreateDatabase w (length (meta_calls s)) (Database (config s)) = Some err \<longrightarrow>
      writer_batch w batch s =
        notify (CreateInternalStorageFailure (Database (config s)) err)
          (s\<lparr>meta_calls := meta_calls s @ [Database (config s)]\<rparr>)"
    by (simp add: writer_batch_def createInternalStorage_def call_CreateDatabase_def)
  have loop: "writer_at s = W_create batch \<and>
    CreateDatabase w (length (meta_calls s)) (Database (config s)) = Some err \<longrightarrow>
      fire w Writer_create s =
        Some ((notify (CreateInternalStorageFailure (Database (config s)) err)
                 (s\<lparr>meta_calls := meta_calls s @ [Database (config s)]\<rparr>))
                \<lparr>writer_at := W_select\<rparr>)"
    by (simp add: call_CreateDatabase_def)
  show ?thesis
  proof (intro conjI impI)
    assume h: "\<not> ready s \<and>
      CreateDatabase w (length (meta_calls s)) (Database (config s)) = Some err"
    with drop show eq: "writer_batch w batch s =
        notify (CreateInternalStorageFailure (Database (config s)) err)
          (s\<lparr>meta_calls := meta_calls s @ [Database (config s)]\<rparr>)"
      by simp
    show "stats (writer_batch w batch s) = stats s"
      by (simp add: eq notify_fields)
    show "Diagnostic (writer_batch w batch s) =
        map_option (\<lambda>seen. seen @ [CreateInternalStorageFailure (Database (config s)) err])
          (Diagnostic s)"
      by (simp add: eq notify_fields)
    show "writes (writer_batch w batch s) = writes s"
      by (simp add: eq notify_fields)
    show "batcher (writer_batch w batch s) = batcher s"
      by (simp add: eq notify_fields)
    show "\<not> ready (writer_batch w batch s)"
      using h by (simp add: eq notify_fields)
  next
    assume "writer_at s = W_create batch \<and>
      CreateDatabase w (length (meta_calls s)) (Database (config s)) = Some err"
    with loop show "fire w Writer_create s =
        Some ((notify (CreateInternalStorageFailure (Database (config s)) err)
                 (s\<lparr>meta_calls := meta_calls s @ [Database (config s)]\<rparr>))
                \<lparr>writer_at := W_select\<rparr>)"
      by simp
  qed
qed

text \<open>
  On the example whose \<open>CreateDatabase\<close> fails twice: two batches are dropped with two
  notifications, the third is written.
\<close>

theorem init_failure_drops_batch_witness:
  "\<not> ready opened \<and>
   CreateDatabase (example_world 2 0) (length (meta_calls opened)) (Database (config opened)) =
     Some (ErrExternal ''create failed'') \<and>
   Diagnostic (writer_batch (example_world 2 0) [Point ''m'' [] [] 1] opened) =
     Some [Started '':8089'',
           CreateInternalStorageFailure ''udp'' (ErrExternal ''create failed'')] \<and>
   writes (writer_batch (example_world 2 0) [Point ''m'' [] [] 1] opened) = [] \<and>
   \<not> ready (writer_batch (example_world 2 0) [Point ''m'' [] [] 1] opened) \<and>
   Diagnostic (writer_batches (example_world 2 0)
                 [[Point ''m'' [] [] 1], [Point ''m'' [] [] 2]] opened) =
     Some [Started '':8089'',
           CreateInternalStorageFailure ''udp'' (ErrExternal ''create failed''),
           CreateInternalStorageFailure ''udp'' (ErrExternal ''create failed'')] \<and>
   map (\<lambda>(db, rp, level, b). b)
     (writes (writer_batches (example_world 2 0)
                [[Point ''m'' [] [] 1], [Point ''m'' [] [] 2], [Point ''m'' [] [] 3]] opened)) =
     [[Point ''m'' [] [] 3]] \<and>
   writer_at (after (example_world 2 0) [Batcher_timeout, Writer_batch, Writer_rlock]
                (after (example_world 2 0) points_buffered
                   (NewService (example_world 2 0) example_config))) =
     W_create [Point ''m'' [] [] 11, Point ''m'' [] [] 12] \<and>
   map_option writer_at
     (run (example_world 2 0)
        (points_buffered @ [Batcher_timeout, Writer_batch, Writer_rlock, Writer_create])
        (NewService (example_world 2 0) example_config)) = Some W_select"
proof -
  let ?w = "example_world 2 0"
  let ?b = "[Point ''m'' [] [] 1]"
  let ?c = "after ?w [Batcher_timeout, Writer_batch, Writer_rlock]
              (after ?w points_buffered (NewService ?w example_config))"
  have s0: "\<not> ready opened \<and> meta_calls opened = [] \<and> config opened = example_config \<and>
            writes opened = [] \<and> Diagnostic opened = Some [Started '':8089'']"
    by (simp add: opened_def service_defs batcher_defs example_defs)
  have h1: "CreateDatabase ?w (length (meta_calls opened)) (Database (config opened)) =
              Some (ErrExternal ''create failed'')"
    using s0 by (simp add: example_defs)
  have two: "Diagnostic (writer_batches ?w [?b, [Point ''m'' [] [] 2]] opened) =
     Some [Started '':8089'',
           CreateInternalStorageFailure ''udp'' (ErrExternal ''create failed''),
           CreateInternalStorageFailure ''udp'' (ErrExternal ''create failed'')] \<and>
     map (\<lambda>(db, rp, level, b). b)
       (writes (writer_batches ?w [?b, [Point ''m'' [] [] 2], [Point ''m'' [] [] 3]] opened)) =
       [[Point ''m'' [] [] 3]]"
    by (simp add: opened_def service_defs batcher_defs example_defs)
  have c0: "writer_at ?c = W_create [Point ''m'' [] [] 11, Point ''m'' [] [] 12] \<and>
            meta_calls ?c = [] \<and> config ?c = example_config"
    by (simp add: service_defs batcher_defs example_defs)
  have h2: "CreateDatabase ?w (length (meta_calls ?c)) (Database (config ?c)) =
              Some (ErrExternal ''create failed'')"
    using c0 by (simp add: example_defs)
  have r: "run ?w (points_buffered @ [Batcher_timeout, Writer_batch, Writer_rlock, Writer_create])
             (NewService ?w example_config) = fire ?w Writer_create ?c"
    by (simp add: service_defs batcher_defs example_defs)
  have a: "Diagnostic (writer_batch ?w ?b opened) =
              map_option (\<lambda>seen. seen @ [CreateInternalStorageFailure (Database (config opened))
                                              (ErrExternal ''create failed'')])
                (Diagnostic opened) \<and>
            writes (writer_batch ?w ?b opened) = writes opened \<and>
            \<not> ready (writer_batch ?w ?b opened)"
    using s0 h1 init_failure_drops_batch [of opened ?w "ErrExternal ''create failed''" ?b]
    by blast
  have b: "fire ?w Writer_create ?c =
             Some ((notify (CreateInternalStorageFailure (Database (config ?c))
                              (ErrExternal ''create failed''))
                      (?c\<lparr>meta_calls := meta_calls ?c @ [Database (config ?c)]\<rparr>))
                     \<lparr>writer_at := W_select\<rparr>)"
    using c0 h2 init_failure_drops_batch [of ?c ?w "ErrExternal ''create failed''"
                                             "[Point ''m'' [] [] 11, Point ''m'' [] [] 12]"]
    by blast
  have b': "map_option writer_at
              (run ?w (points_buffered @
                         [Batcher_timeout, Writer_batch, Writer_rlock, Writer_create])
                 (NewService ?w example_config)) = Some W_select"
    by (simp only: r b) simp
  from a s0 have a': "Diagnostic (writer_batch ?w ?b opened) =
       Some [Started '':8089'',
             CreateInternalStorageFailure ''udp'' (ErrExternal ''create failed'')] \<and>
     writes (writer_batch ?w ?b opened) = [] \<and> \<not> ready (writer_batch ?w ?b opened)"
    by (simp add: example_config_def)
  from s0 h1 a' two c0 b' show ?thesis
    by simp
qed

section \<open>The writer's steps\<close>

text \<open>
  \<open>writer_batch\<close> is what the writer's steps do with a batch when \<open>s.mu\<close> is free.
\<close>

lemma write_batch_writer_at:
  "write_batch w batch (s\<lparr>writer_at := pc\<rparr>) = (write_batch w batch s)\<lparr>writer_at := pc\<rparr>"
  by (simp add: write_batch_def notify_def Let_def split: option.splits)

lemma writer_batch_by_steps:
  "writer_at s = W_rlock batch \<Longrightarrow> close_at s = C_idle \<Longrightarrow>
     run w (if ready s then [Writer_rlock, Writer_write]
            else if CreateDatabase w (length (meta_calls s)) (Database (config s)) = None
            then [Writer_rlock, Writer_create, Writer_lock, Writer_write]
            else [Writer_rlock, Writer_create]) s =
       Some ((writer_batch w batch s)\<lparr>writer_at := W_select\<rparr>)"
  by (auto simp: writer_batch_def createInternalStorage_def call_CreateDatabase_def
        write_batch_writer_at notify_def write_batch_def Let_def split: option.splits)

section \<open>The readiness flag\<close>

lemma Open_writer_meta:
  "meta_calls (snd (Open w s)) = meta_calls s \<and>
   (writer_at (snd (Open w s)) = writer_at s \<or> writer_at (snd (Open w s)) = W_select)"
  by (simp add: Open_def Let_def notify_def split: sum.splits option.splits)

lemma fire_keeps_calls:
  "fire w a s = Some t \<Longrightarrow> ready s \<Longrightarrow> \<not> creating s \<Longrightarrow>
     \<not> creating t \<and> meta_calls t = meta_calls s"
proof (cases a)
  case Call_With
  assume "fire w a s = Some t" "ready s" "\<not> creating s"
  with Call_With show ?thesis by (auto simp: With_def creating_def)
next
  case Call_Open
  assume "fire w a s = Some t" "ready s" "\<not> creating s"
  with Call_Open Open_writer_meta [of w s] show ?thesis
    by (auto simp: creating_def split: if_splits)
next
  case Call_Close
  assume "fire w a s = Some t" "ready s" "\<not> creating s"
  with Call_Close show ?thesis by (auto simp: Close_enter_def creating_def split: if_splits)
next
  case Do_Close_conn
  assume "fire w a s = Some t" "ready s" "\<not> creating s"
  with Do_Close_conn show ?thesis
    by (auto simp: Close_conn_def creating_def split: if_splits option.splits)
next
  case Do_Close_flush
  assume "fire w a s = Some t" "ready s" "\<not> creating s"
  with Do_Close_flush show ?thesis by (auto simp: Close_flush_def creating_def split: if_splits)
next
  case Do_Close_finish
  assume "fire w a s = Some t" "ready s" "\<not> creating s"
  with Do_Close_finish show ?thesis
    by (auto simp: Close_finish_def notify_def creating_def split: if_splits option.splits)
next
  case Serve_start
  assume "fire w a s = Some t" "ready s" "\<not> creating s"
  with Serve_start show ?thesis by (auto simp: serve_start_def creating_def split: if_splits)
next
  case Serve_select
  assume "fire w a s = Some t" "ready s" "\<not> creating s"
  with Serve_select show ?thesis by (auto simp: serve_select_def creating_def split: if_splits)
next
  case Serve_read
  assume "fire w a s = Some t" "ready s" "\<not> creating s"
  with Serve_read show ?thesis
    by (auto simp: ReadFromUDP_def serve_read_def notify_def creating_def
          split: if_splits option.splits UDPConn.splits list.splits sum.splits)
next
  case Serve_send
  assume "fire w a s = Some t" "ready s" "\<not> creating s"
  with Serve_send show ?thesis
    by (auto simp: serve_send_def creating_def split: if_splits serve_pc.splits)
next
  case Parser_done
  assume "fire w a s = Some t" "ready s" "\<not> creating s"
  with Parser_done show ?thesis by (auto simp: creating_def split: if_splits)
next
  case (Parser_buf now)
  assume "fire w a s = Some t" "ready s" "\<not> creating s"
  with Parser_buf show ?thesis
    by (auto simp: parser_decode_def notify_def creating_def
          split: if_splits list.splits sum.splits option.splits)
next
  case Parser_send
  assume "fire w a s = Some t" "ready s" "\<not> creating s"
  with Parser_send show ?thesis
    by (auto simp: parser_send_def creating_def
          split: parser_pc.splits list.splits option.splits)
next
  case Parser_count
  assume "fire w a s = Some t" "ready s" "\<not> creating s"
  with Parser_count show ?thesis
    by (auto simp: parser_count_def creating_def split: parser_pc.splits list.splits)
next
  case Writer_batch
  assume "fire w a s = Some t" "ready s" "\<not> creating s"
  with Writer_batch show ?thesis by (auto simp: creating_def split: if_splits list.splits)
next
  case Writer_done
  assume "fire w a s = Some t" "ready s" "\<not> creating s"
  with Writer_done show ?thesis by (auto simp: creating_def split: if_splits)
next
  case Writer_rlock
  assume "fire w a s = Some t" "ready s" "\<not> creating s"
  with Writer_rlock show ?thesis
    by (auto simp: creating_def split: if_splits writer_pc.splits)
next
  case Writer_create
  assume "fire w a s = Some t" "ready s" "\<not> creating s"
  with Writer_create show ?thesis
    by (auto simp: creating_def split: writer_pc.splits)
next
  case Writer_lock
  assume "fire w a s = Some t" "ready s" "\<not> creating s"
  with Writer_lock show ?thesis by (auto simp: creating_def split: if_splits writer_pc.splits)
next
  case Writer_write
  assume "fire w a s = Some t" "ready s" "\<not> creating s"
  with Writer_write show ?thesis
    by (auto simp: write_batch_fields creating_def split: if_splits writer_pc.splits)
next
  case (Net_deliver r)
  assume "fire w a s = Some t" "ready s" "\<not> creating s"
  with Net_deliver show ?thesis by (auto simp: creating_def split: if_splits)
next
  case Batcher_timeout
  assume "fire w a s = Some t" "ready s" "\<not> creating s"
  with Batcher_timeout show ?thesis by (auto simp: creating_def)
qed

lemma fire_not_creating:
  assumes "fire w a s = Some t" and "ready s \<longrightarrow> \<not> creating s"
  shows "ready t \<longrightarrow> \<not> creating t"
proof (cases "ready s")
  case True
  with assms fire_keeps_calls [of w a s t] show ?thesis by simp
next
  case False
  show ?thesis
  proof
    assume "ready t"
    with False assms(1) fire_ready [of w a s t] have a: "a = Writer_lock" by simp
    with assms(1) show "\<not> creating t"
      by (auto simp: creating_def split: writer_pc.splits if_splits)
  qed
qed

lemma run_ready: "run w as s = Some t \<Longrightarrow> ready s \<Longrightarrow> ready t"
proof (induction as arbitrary: s)
  case Nil
  then show ?case by simp
next
  case (Cons a as)
  from Cons.prems(1) obtain u where u: "fire w a s = Some u" "run w as u = Some t"
    by (auto split: option.splits)
  from u(1) Cons.prems(2) have "ready u" by (simp add: fire_ready)
  with Cons.IH u(2) show ?case by simp
qed

lemma run_not_creating:
  "run w as s = Some t \<Longrightarrow> ready s \<longrightarrow> \<not> creating s \<Longrightarrow> ready t \<longrightarrow> \<not> creating t"
proof (induction as arbitrary: s)
  case Nil
  then show ?case by simp
next
  case (Cons a as)
  from Cons.prems(1) obtain u where u: "fire w a s = Some u" "run w as u = Some t"
    by (auto split: option.splits)
  from u(1) Cons.prems(2) have "ready u \<longrightarrow> \<not> creating u" by (rule fire_not_creating)
  with Cons.IH u(2) show ?case by simp
qed

lemma run_keeps_calls:
  "run w as s = Some t \<Longrightarrow> ready s \<Longrightarrow> \<not> creating s \<Longrightarrow> meta_calls t = meta_calls s"
proof (induction as arbitrary: s)
  case Nil
  then show ?case by simp
next
  case (Cons a as)
  from Cons.prems(1) obtain u where u: "fire w a s = Some u" "run w as u = Some t"
    by (auto split: option.splits)
  from u(1) Cons.prems(2,3) have k: "\<not> creating u \<and> meta_calls u = meta_calls s"
    by (rule fire_keeps_calls)
  from u(1) Cons.prems(2) have "ready u" by (simp add: fire_ready)
  with Cons.IH [OF u(2)] k show ?case by simp
qed

lemma NewService_not_creating: "\<not> creating (NewService w c)"
  by (simp add: creating_def NewService_def Let_def)

text \<open>
  C10. No part of \<open>Open\<close> or \<open>Close\<close> clears the flag, and no execution does, from any state:
  once \<open>ready\<close> holds, it holds after every sequence of steps, \<open>Close\<close> and a new \<open>Open\<close>
  among them, and \<open>Ready\<close> answers true. In a service that started as \<open>NewService\<close> returns
  it, no execution that begins with the flag set calls \<open>CreateDatabase\<close>.
\<close>

theorem readiness_is_permanent:
  "(ready s \<longrightarrow>
      ready (snd (Open w s)) \<and> ready (snd (Close_enter s)) \<and> ready (Close_conn s) \<and>
      ready (Close_flush s) \<and> ready (snd (Close_finish s))) \<and>
   (run w as s = Some t \<and> ready s \<longrightarrow> ready t \<and> Ready t) \<and>
   (run w as (NewService w c) = Some s \<and> ready s \<and> run w bs s = Some t \<longrightarrow>
      meta_calls t = meta_calls s)"
proof (intro conjI impI)
  assume "ready s"
  then show "ready (snd (Open w s))" by (simp add: Open_ready)
next
  assume "ready s"
  then show "ready (snd (Close_enter s))" by (simp add: Close_enter_def)
next
  assume "ready s"
  then show "ready (Close_conn s)" by (simp add: Close_conn_def split: option.splits)
next
  assume "ready s"
  then show "ready (Close_flush s)" by (simp add: Close_flush_def)
next
  assume "ready s"
  then show "ready (snd (Close_finish s))" by (simp add: Close_finish_def notify_fields)
next
  assume "run w as s = Some t \<and> ready s"
  then show "ready t" using run_ready by blast
next
  assume "run w as s = Some t \<and> ready s"
  then show "Ready t" using run_ready by (auto simp: Ready_def)
next
  assume h: "run w as (NewService w c) = Some s \<and> ready s \<and> run w bs s = Some t"
  then have "ready s \<longrightarrow> \<not> creating s"
    using run_not_creating [of w as "NewService w c" s] NewService_not_creating [of w c]
    by simp
  with h show "meta_calls t = meta_calls s"
    using run_keeps_calls [of w bs s t] by simp
qed

text \<open>
  On the example: the first life sets the flag with one call; after \<open>Close\<close>, and after a
  new \<open>Open\<close> whose writer writes the batch that \<open>Close\<close> flushed, the flag is set and the
  call is still the only one.
\<close>

theorem readiness_is_permanent_witness:
  "run (example_world 0 0) first_life (NewService (example_world 0 0) example_config) =
     Some (after (example_world 0 0) first_life (NewService (example_world 0 0) example_config)) \<and>
   ready (after (example_world 0 0) first_life (NewService (example_world 0 0) example_config)) \<and>
   map_option (\<lambda>t. (lifecycle t, closed t, ready t, Ready t, meta_calls t, length (writes t)))
     (run (example_world 0 0) shutdown
        (after (example_world 0 0) first_life (NewService (example_world 0 0) example_config))) =
     Some ((C_idle, S_off, P_off, W_off, 0), True, True, True, [''udp''], 1) \<and>
   map_option (\<lambda>t. (lifecycle t, closed t, ready t, Ready t, meta_calls t, length (writes t)))
     (run (example_world 0 0) second_life
        (after (example_world 0 0) first_life (NewService (example_world 0 0) example_config))) =
     Some ((C_idle, S_start, P_select, W_select, 3), False, True, True, [''udp''], 2) \<and>
   ready (snd (Close_finish
     (after (example_world 0 0) first_life (NewService (example_world 0 0) example_config))))"
proof -
  let ?w = "example_world 0 0"
  let ?n = "NewService ?w example_config"
  let ?s = "after ?w first_life ?n"
  let ?t = "after ?w second_life ?s"
  let ?u = "after ?w shutdown ?s"
  have h1: "run ?w first_life ?n = Some ?s"
    by (simp add: first_life_def service_defs batcher_defs example_defs)
  have h2: "ready ?s \<and> meta_calls ?s = [''udp'']"
    by (simp add: first_life_def service_defs batcher_defs example_defs)
  have h3: "run ?w second_life ?s = Some ?t \<and> lifecycle ?t = (C_idle, S_start, P_select, W_select, 3)
            \<and> \<not> closed ?t \<and> length (writes ?t) = 2"
    by (simp add: first_life_def second_life_def shutdown_def service_defs batcher_defs
          example_defs)
  have h4: "run ?w shutdown ?s = Some ?u \<and> lifecycle ?u = (C_idle, S_off, P_off, W_off, 0)
            \<and> closed ?u \<and> length (writes ?u) = 1"
    by (simp add: first_life_def shutdown_def service_defs batcher_defs example_defs)
  from h1 h2 h3
    readiness_is_permanent [of ?s ?w second_life ?t]
    readiness_is_permanent [of ?s ?w first_life ?t example_config second_life]
  have a: "ready ?t \<and> Ready ?t \<and> meta_calls ?t = [''udp'']"
    by simp
  from h1 h2 h4
    readiness_is_permanent [of ?s ?w shutdown ?u]
    readiness_is_permanent [of ?s ?w first_life ?u example_config shutdown]
  have b: "ready ?u \<and> Ready ?u \<and> meta_calls ?u = [''udp''] \<and> ready (snd (Close_finish ?s))"
    by simp
  from h1 h2 h3 h4 a b show ?thesis
    by simp
qed

section \<open>Close and the writer\<close>

text \<open>
  C1, as stated, fails on the example. Two points are decoded and buffered in the batcher;
  \<open>Close\<close> fires the signal, closes the socket and flushes them into a batch; the writer's
  select takes the termination case; the other workers return and \<open>Close\<close> returns. The
  batch is still in the batcher's output and the backend has not been called.
\<close>

theorem Close_returns_with_batch_unwritten:
  "map_option shutdown_view
     (run (example_world 0 0) points_buffered (NewService (example_world 0 0) example_config)) =
     Some ((C_idle, S_select, P_select, W_select, 3), False,
           [Point ''m'' [] [] 11, Point ''m'' [] [] 12], [], []) \<and>
   map_option shutdown_view
     (run (example_world 0 0) (points_buffered @ shutdown)
        (NewService (example_world 0 0) example_config)) =
     Some ((C_idle, S_off, P_off, W_off, 0), True, [],
           [[Point ''m'' [] [] 11, Point ''m'' [] [] 12]], [])"
  by (simp add: shutdown_view_def shutdown_def service_defs batcher_defs example_defs)

lemma flush_batched:
  "batched (batcher_Flush b) = batched b \<and> pb_buf (batcher_Flush b) = []"
  by (simp add: batcher_Flush_def batcher_emit_def batched_def)

text \<open>
  C1, amended. \<open>Close\<close> on an open service fires the signal, and its flush leaves no point
  in the batcher's buffer: every point the batcher held is in a batch of its output. But
  whenever the signal has fired and the writer is at its select, the termination case can be
  taken, whatever the output holds, and the writer returns with the output, and the record
  of writes, as they were; a writer that has returned takes no batch. \<open>Close\<close> then returns
  once the wait group is at zero, leaving the batcher as it is.
\<close>

theorem Close_flushes_but_writer_may_leave:
  "(\<not> closed s \<longrightarrow>
      Close_enter s = (None, s\<lparr>done_ch := Some ChanClosed, close_at := C_conn\<rparr>)) \<and>
   batched (batcher (Close_flush s)) = batched (batcher s) \<and>
   pb_buf (batcher (Close_flush s)) = [] \<and>
   (writer_at s = W_select \<and> done_ch s = Some ChanClosed \<longrightarrow>
      fire w Writer_done s = Some (s\<lparr>wg := wg s - 1, writer_at := W_off\<rparr>)) \<and>
   (writer_at s = W_off \<longrightarrow> enabled w writer_actions s = []) \<and>
   (close_at s = C_wait \<and> wg s = 0 \<longrightarrow>
      fire w Do_Close_finish s = Some (snd (Close_finish s)) \<and>
      batcher (snd (Close_finish s)) = batcher s \<and>
      writes (snd (Close_finish s)) = writes s)"
proof -
  have enter: "\<not> closed s \<longrightarrow>
      Close_enter s = (None, s\<lparr>done_ch := Some ChanClosed, close_at := C_conn\<rparr>)"
    by (simp add: Close_enter_def)
  have flush: "batched (batcher (Close_flush s)) = batched (batcher s) \<and>
      pb_buf (batcher (Close_flush s)) = []"
    by (simp add: Close_flush_def flush_batched)
  have leave: "writer_at s = W_select \<and> done_ch s = Some ChanClosed \<longrightarrow>
      fire w Writer_done s = Some (s\<lparr>wg := wg s - 1, writer_at := W_off\<rparr>)"
    by simp
  have gone: "writer_at s = W_off \<longrightarrow> enabled w writer_actions s = []"
    by (simp add: enabled_def writer_actions_def)
  have finish: "close_at s = C_wait \<and> wg s = 0 \<longrightarrow>
      fire w Do_Close_finish s = Some (snd (Close_finish s)) \<and>
      batcher (snd (Close_finish s)) = batcher s \<and>
      writes (snd (Close_finish s)) = writes s"
    by (simp add: Close_finish_def notify_fields)
  from enter flush leave gone finish show ?thesis by blast
qed

text \<open>On the example, at the states the shutdown goes through.\<close>

theorem Close_flushes_but_writer_may_leave_witness:
  "\<not> closed (after (example_world 0 0) points_buffered
               (NewService (example_world 0 0) example_config)) \<and>
   shutdown_view (after (example_world 0 0) (points_buffered @ take 3 shutdown)
                    (NewService (example_world 0 0) example_config)) =
     ((C_wait, S_select, P_select, W_select, 3), True, [],
      [[Point ''m'' [] [] 11, Point ''m'' [] [] 12]], []) \<and>
   map_option shutdown_view
     (fire (example_world 0 0) Writer_done
        (after (example_world 0 0) (points_buffered @ take 3 shutdown)
           (NewService (example_world 0 0) example_config))) =
     Some ((C_wait, S_select, P_select, W_off, 2), True, [],
           [[Point ''m'' [] [] 11, Point ''m'' [] [] 12]], []) \<and>
   enabled (example_world 0 0) writer_actions
     (after (example_world 0 0) (points_buffered @ take 4 shutdown)
        (NewService (example_world 0 0) example_config)) = [] \<and>
   map_option shutdown_view
     (fire (example_world 0 0) Do_Close_finish
        (after (example_world 0 0) (points_buffered @ take 6 shutdown)
           (NewService (example_world 0 0) example_config))) =
     Some ((C_idle, S_off, P_off, W_off, 0), True, [],
           [[Point ''m'' [] [] 11, Point ''m'' [] [] 12]], [])"
proof -
  let ?w = "example_world 0 0"
  let ?n = "NewService ?w example_config"
  let ?a = "after ?w points_buffered ?n"
  let ?b = "after ?w (points_buffered @ take 3 shutdown) ?n"
  let ?c = "after ?w (points_buffered @ take 4 shutdown) ?n"
  let ?d = "after ?w (points_buffered @ take 6 shutdown) ?n"
  let ?out = "[[Point ''m'' [] [] 11, Point ''m'' [] [] 12]]"
  have a: "\<not> closed ?a"
    by (simp add: service_defs batcher_defs example_defs)
  have b: "shutdown_view ?b = ((C_wait, S_select, P_select, W_select, 3), True, [], ?out, [])
           \<and> writer_at ?b = W_select \<and> done_ch ?b = Some ChanClosed"
    by (simp add: shutdown_view_def shutdown_def service_defs batcher_defs example_defs)
  have b': "shutdown_view (?b\<lparr>wg := wg ?b - 1, writer_at := W_off\<rparr>) =
              ((C_wait, S_select, P_select, W_off, 2), True, [], ?out, [])"
    by (simp add: shutdown_view_def shutdown_def service_defs batcher_defs example_defs)
  have c: "writer_at ?c = W_off"
    by (simp add: shutdown_def service_defs batcher_defs example_defs)
  have d: "close_at ?d = C_wait \<and> wg ?d = 0"
    by (simp add: shutdown_def service_defs batcher_defs example_defs)
  have d': "shutdown_view (snd (Close_finish ?d)) = ((C_idle, S_off, P_off, W_off, 0), True, [], ?out, [])"
    by (simp add: shutdown_view_def shutdown_def service_defs batcher_defs example_defs)
  have wd: "fire ?w Writer_done ?b = Some (?b\<lparr>wg := wg ?b - 1, writer_at := W_off\<rparr>)"
    using b Close_flushes_but_writer_may_leave [of ?b ?w] by blast
  have wc: "enabled ?w writer_actions ?c = []"
    using c Close_flushes_but_writer_may_leave [of ?c ?w] by blast
  have cf: "fire ?w Do_Close_finish ?d = Some (snd (Close_finish ?d))"
    using d Close_flushes_but_writer_may_leave [of ?d ?w] by blast
  from a b show ?thesis
    by (simp only: wd wc cf option.map b' d' simp_thms)
qed

section \<open>How the workers wait\<close>

text \<open>
  C7, as stated, fails for the receiver. On the example the receiver has passed its check of
  the signal and stands in \<open>ReadFromUDP\<close> on an open socket with nothing pending when
  \<open>Close\<close> fires the signal: none of its steps is enabled, the termination case is not one
  it can take there.
\<close>

theorem receiver_blocks_after_termination:
  "map_option (serve_view (example_world 0 0))
     (run (example_world 0 0) receiver_waiting (NewService (example_world 0 0) example_config)) =
     Some (Some ChanClosed, Some ConnOpen, S_read, [], 0, Some [Started '':8089''])"
  by (simp add: serve_view_def enabled_def serve_actions_def receiver_waiting_def service_defs
        batcher_defs example_defs)

text \<open>
  C7, amended. The parser and the writer wait in a select over the signal and their queue:
  whenever the signal has fired and one of them is at its select, it can return. The receiver
  checks the signal without blocking at the top of its loop, returning if it has fired and
  going on to the read if not; in the read, on an open socket with nothing pending, it is
  blocked whether the signal has fired or not, and it is the closing of the socket by
  \<open>Close\<close> that makes the read return, with an error, back to the check.
\<close>

theorem workers_wait:
  "(parser_at s = P_select \<and> done_ch s = Some ChanClosed \<longrightarrow>
      fire w Parser_done s = Some (s\<lparr>wg := wg s - 1, parser_at := P_off\<rparr>)) \<and>
   (writer_at s = W_select \<and> done_ch s = Some ChanClosed \<longrightarrow>
      fire w Writer_done s = Some (s\<lparr>wg := wg s - 1, writer_at := W_off\<rparr>)) \<and>
   (serve_at s = S_select \<longrightarrow>
      fire w Serve_select s =
        Some (if done_ch s = Some ChanClosed then s\<lparr>wg := wg s - 1, serve_at := S_off\<rparr>
              else s\<lparr>serve_at := S_read\<rparr>)) \<and>
   (serve_at s = S_read \<and> conn s = Some ConnOpen \<and> net_in s = [] \<longrightarrow>
      enabled w serve_actions s = []) \<and>
   (close_at s = C_conn \<and> conn s = Some ConnOpen \<longrightarrow>
      fire w Do_Close_conn s = Some (s\<lparr>conn := Some ConnClosed, close_at := C_flush\<rparr>)) \<and>
   (serve_at s = S_read \<and> conn s = Some ConnClosed \<longrightarrow>
      map_option serve_at (fire w Serve_read s) = Some S_select)"
proof -
  have p: "parser_at s = P_select \<and> done_ch s = Some ChanClosed \<longrightarrow>
      fire w Parser_done s = Some (s\<lparr>wg := wg s - 1, parser_at := P_off\<rparr>)"
    by simp
  have wr: "writer_at s = W_select \<and> done_ch s = Some ChanClosed \<longrightarrow>
      fire w Writer_done s = Some (s\<lparr>wg := wg s - 1, writer_at := W_off\<rparr>)"
    by simp
  have chk: "serve_at s = S_select \<longrightarrow>
      fire w Serve_select s =
        Some (if done_ch s = Some ChanClosed then s\<lparr>wg := wg s - 1, serve_at := S_off\<rparr>
              else s\<lparr>serve_at := S_read\<rparr>)"
    by (simp add: serve_select_def)
  have blocked: "serve_at s = S_read \<and> conn s = Some ConnOpen \<and> net_in s = [] \<longrightarrow>
      enabled w serve_actions s = []"
    by (simp add: enabled_def serve_actions_def ReadFromUDP_def)
  have cl: "close_at s = C_conn \<and> conn s = Some ConnOpen \<longrightarrow>
      fire w Do_Close_conn s = Some (s\<lparr>conn := Some ConnClosed, close_at := C_flush\<rparr>)"
    by (simp add: Close_conn_def)
  have unblocked: "serve_at s = S_read \<and> conn s = Some ConnClosed \<longrightarrow>
      map_option serve_at (fire w Serve_read s) = Some S_select"
    by (simp add: ReadFromUDP_def serve_read_def)
  from p wr chk blocked cl unblocked show ?thesis by blast
qed

text \<open>On the example: the receiver blocked in the read, \<open>Close\<close> closing the socket, the three workers returning.\<close>

theorem workers_wait_witness:
  "serve_view (example_world 0 0)
     (after (example_world 0 0) receiver_waiting (NewService (example_world 0 0) example_config)) =
     (Some ChanClosed, Some ConnOpen, S_read, [], 0, Some [Started '':8089'']) \<and>
   map_option lifecycle
     (run (example_world 0 0) (receiver_waiting @ [Do_Close_conn, Serve_read])
        (NewService (example_world 0 0) example_config)) =
     Some (C_flush, S_select, P_select, W_select, 3) \<and>
   map_option lifecycle
     (run (example_world 0 0)
        (receiver_waiting @ [Do_Close_conn, Serve_read, Serve_select, Parser_done, Writer_done])
        (NewService (example_world 0 0) example_config)) =
     Some (C_flush, S_off, P_off, W_off, 0)"
proof -
  let ?w = "example_world 0 0"
  let ?n = "NewService ?w example_config"
  let ?a = "after ?w receiver_waiting ?n"
  let ?b = "after ?w (receiver_waiting @ [Do_Close_conn]) ?n"
  let ?c = "after ?w (receiver_waiting @ [Do_Close_conn, Serve_read]) ?n"
  let ?d = "after ?w (receiver_waiting @ [Do_Close_conn, Serve_read, Serve_select]) ?n"
  let ?e = "after ?w (receiver_waiting @ [Do_Close_conn, Serve_read, Serve_select, Parser_done]) ?n"
  have a: "serve_at ?a = S_read \<and> conn ?a = Some ConnOpen \<and> net_in ?a = [] \<and>
           close_at ?a = C_conn \<and> done_ch ?a = Some ChanClosed \<and> ReadFail (stats ?a) = 0 \<and>
           Diagnostic ?a = Some [Started '':8089'']"
    by (simp add: receiver_waiting_def service_defs batcher_defs example_defs)
  have b: "serve_at ?b = S_read \<and> conn ?b = Some ConnClosed"
    by (simp add: receiver_waiting_def service_defs batcher_defs example_defs)
  have c: "lifecycle ?c = (C_flush, S_select, P_select, W_select, 3) \<and>
           done_ch ?c = Some ChanClosed \<and> serve_at ?c = S_select \<and>
           run ?w (receiver_waiting @ [Do_Close_conn, Serve_read]) ?n = Some ?c"
    by (simp add: receiver_waiting_def service_defs batcher_defs example_defs)
  have d: "parser_at ?d = P_select \<and> done_ch ?d = Some ChanClosed"
    by (simp add: receiver_waiting_def service_defs batcher_defs example_defs)
  have e: "writer_at ?e = W_select \<and> done_ch ?e = Some ChanClosed \<and>
           lifecycle (?e\<lparr>wg := wg ?e - 1, writer_at := W_off\<rparr>) =
             (C_flush, S_off, P_off, W_off, 0)"
    by (simp add: receiver_waiting_def service_defs batcher_defs example_defs)
  have r: "run ?w (receiver_waiting @ [Do_Close_conn, Serve_read, Serve_select, Parser_done,
                                       Writer_done]) ?n = fire ?w Writer_done ?e"
    by (simp add: receiver_waiting_def service_defs batcher_defs example_defs)
  note t = workers_wait
  have blocked: "enabled ?w serve_actions ?a = []"
    using a t [of ?a ?w] by blast
  have closes: "fire ?w Do_Close_conn ?a = Some (?a\<lparr>conn := Some ConnClosed, close_at := C_flush\<rparr>)"
    using a t [of ?a ?w] by blast
  have unblocks: "map_option serve_at (fire ?w Serve_read ?b) = Some S_select"
    using b t [of ?b ?w] by blast
  have s_exit: "fire ?w Serve_select ?c =
                  Some (if done_ch ?c = Some ChanClosed
                        then ?c\<lparr>wg := wg ?c - 1, serve_at := S_off\<rparr>
                        else ?c\<lparr>serve_at := S_read\<rparr>)"
    using c t [of ?c ?w] by blast
  have p_exit: "fire ?w Parser_done ?d = Some (?d\<lparr>wg := wg ?d - 1, parser_at := P_off\<rparr>)"
    using d t [of ?d ?w] by blast
  have w_exit: "fire ?w Writer_done ?e = Some (?e\<lparr>wg := wg ?e - 1, writer_at := W_off\<rparr>)"
    using e t [of ?e ?w] by blast
  have one: "serve_view ?w ?a =
               (Some ChanClosed, Some ConnOpen, S_read, [], 0, Some [Started '':8089''])"
    using a blocked by (simp add: serve_view_def)
  have two: "map_option lifecycle (run ?w (receiver_waiting @ [Do_Close_conn, Serve_read]) ?n) =
               Some (C_flush, S_select, P_select, W_select, 3)"
    using c by simp
  have three: "map_option lifecycle
                 (run ?w (receiver_waiting @ [Do_Close_conn, Serve_read, Serve_select,
                                              Parser_done, Writer_done]) ?n) =
               Some (C_flush, S_off, P_off, W_off, 0)"
    using e by (simp only: r w_exit option.map)
  from one two three closes unblocks s_exit p_exit show ?thesis by blast
qed

section \<open>Read errors\<close>

text \<open>
  C8, as stated, fails on the example: the receiver is in the read when \<open>Close\<close> fires the
  signal and closes the socket; the read returns the error of the closed socket, which is
  counted in \<open>ReadFail\<close> and reported to the sink; then the receiver returns.
\<close>

theorem socket_close_counts_as_read_failure:
  "map_option (serve_view (example_world 0 0))
     (run (example_world 0 0) (receiver_waiting @ [Do_Close_conn, Serve_read, Serve_select])
        (NewService (example_world 0 0) example_config)) =
     Some (Some ChanClosed, Some ConnClosed, S_off, [], 1,
           Some [Started '':8089'',
                 ReadFromError (ErrExternal ''use of closed network connection'')])"
  by (simp add: serve_view_def enabled_def serve_actions_def receiver_waiting_def service_defs
        batcher_defs example_defs)

text \<open>
  C8, amended. A read on the closed socket returns an error, and every read error is handled
  alike, whether the signal has fired or not: \<open>ReadFail\<close> is raised by one, the sink, if
  there is one, is told, and the receiver goes back to its check of the signal, where it
  returns if the signal has fired.
\<close>

theorem read_errors_all_counted:
  "(serve_at s = S_read \<and> conn s = Some ConnClosed \<longrightarrow>
      fire w Serve_read s =
        Some (serve_read (Inl (ErrExternal ''use of closed network connection'')) s)) \<and>
   stats (serve_read (Inl err) s) = (stats s)\<lparr>ReadFail := ReadFail (stats s) + 1\<rparr> \<and>
   Diagnostic (serve_read (Inl err) s) =
     map_option (\<lambda>seen. seen @ [ReadFromError err]) (Diagnostic s) \<and>
   serve_at (serve_read (Inl err) s) = S_select \<and>
   done_ch (serve_read (Inl err) s) = done_ch s \<and>
   wg (serve_read (Inl err) s) = wg s \<and>
   (serve_at s = S_select \<and> done_ch s = Some ChanClosed \<longrightarrow>
      fire w Serve_select s = Some (s\<lparr>wg := wg s - 1, serve_at := S_off\<rparr>))"
proof -
  have rd: "serve_at s = S_read \<and> conn s = Some ConnClosed \<longrightarrow>
      fire w Serve_read s =
        Some (serve_read (Inl (ErrExternal ''use of closed network connection'')) s)"
    by (simp add: ReadFromUDP_def)
  have cnt: "stats (serve_read (Inl err) s) = (stats s)\<lparr>ReadFail := ReadFail (stats s) + 1\<rparr> \<and>
      Diagnostic (serve_read (Inl err) s) =
        map_option (\<lambda>seen. seen @ [ReadFromError err]) (Diagnostic s) \<and>
      serve_at (serve_read (Inl err) s) = S_select \<and>
      done_ch (serve_read (Inl err) s) = done_ch s \<and>
      wg (serve_read (Inl err) s) = wg s"
    by (simp add: serve_read_def notify_def split: option.splits)
  have ex: "serve_at s = S_select \<and> done_ch s = Some ChanClosed \<longrightarrow>
      fire w Serve_select s = Some (s\<lparr>wg := wg s - 1, serve_at := S_off\<rparr>)"
    by (simp add: serve_select_def)
  from rd cnt ex show ?thesis by blast
qed

text \<open>On the example, at the read on the socket that \<open>Close\<close> has closed.\<close>

theorem read_errors_all_counted_witness:
  "serve_at (after (example_world 0 0) (receiver_waiting @ [Do_Close_conn])
               (NewService (example_world 0 0) example_config)) = S_read \<and>
   conn (after (example_world 0 0) (receiver_waiting @ [Do_Close_conn])
           (NewService (example_world 0 0) example_config)) = Some ConnClosed \<and>
   done_ch (after (example_world 0 0) (receiver_waiting @ [Do_Close_conn])
              (NewService (example_world 0 0) example_config)) = Some ChanClosed \<and>
   map_option (serve_view (example_world 0 0))
     (fire (example_world 0 0) Serve_read
        (after (example_world 0 0) (receiver_waiting @ [Do_Close_conn])
           (NewService (example_world 0 0) example_config))) =
     Some (Some ChanClosed, Some ConnClosed, S_select, [Serve_select], 1,
           Some [Started '':8089'',
                 ReadFromError (ErrExternal ''use of closed network connection'')]) \<and>
   map_option (serve_view (example_world 0 0))
     (fire (example_world 0 0) Serve_select
        (after (example_world 0 0) (receiver_waiting @ [Do_Close_conn, Serve_read])
           (NewService (example_world 0 0) example_config))) =
     Some (Some ChanClosed, Some ConnClosed, S_off, [], 1,
           Some [Started '':8089'',
                 ReadFromError (ErrExternal ''use of closed network connection'')])"
proof -
  let ?w = "example_world 0 0"
  let ?n = "NewService ?w example_config"
  let ?b = "after ?w (receiver_waiting @ [Do_Close_conn]) ?n"
  let ?c = "after ?w (receiver_waiting @ [Do_Close_conn, Serve_read]) ?n"
  let ?e = "ErrExternal ''use of closed network connection''"
  let ?log = "Some [Started '':8089'', ReadFromError ?e]"
  have b: "serve_at ?b = S_read \<and> conn ?b = Some ConnClosed \<and> done_ch ?b = Some ChanClosed"
    by (simp add: receiver_waiting_def service_defs batcher_defs example_defs)
  have bv: "serve_view ?w (serve_read (Inl ?e) ?b) =
              (Some ChanClosed, Some ConnClosed, S_select, [Serve_select], 1, ?log)"
    by (simp add: serve_view_def enabled_def serve_actions_def receiver_waiting_def service_defs
          batcher_defs example_defs)
  have c: "serve_at ?c = S_select \<and> done_ch ?c = Some ChanClosed"
    by (simp add: receiver_waiting_def service_defs batcher_defs example_defs)
  have cv: "serve_view ?w (?c\<lparr>wg := wg ?c - 1, serve_at := S_off\<rparr>) =
              (Some ChanClosed, Some ConnClosed, S_off, [], 1, ?log)"
    by (simp add: serve_view_def enabled_def serve_actions_def receiver_waiting_def service_defs
          batcher_defs example_defs)
  have rd: "fire ?w Serve_read ?b = Some (serve_read (Inl ?e) ?b)"
    using b read_errors_all_counted [of ?b ?w] by blast
  have ex: "fire ?w Serve_select ?c = Some (?c\<lparr>wg := wg ?c - 1, serve_at := S_off\<rparr>)"
    using c read_errors_all_counted [of ?c ?w] by blast
  from b show ?thesis
    by (simp only: rd ex option.map bv cv simp_thms)
qed

section \<open>Close and the lock\<close>

text \<open>
  \<open>Close\<close> keeps \<open>s.mu\<close> while it waits for the workers, and \<open>createInternalStorage\<close>
  takes it. A writer that receives a batch after \<open>Close\<close> has begun therefore waits for
  \<open>Close\<close>, which waits for the writer: from such a state no execution lets \<open>Close\<close>
  return or the batch be written.
\<close>

lemma Open_pcs_consistent:
  "consistent s \<Longrightarrow> close_at s = C_idle \<Longrightarrow> consistent (snd (Open w s))"
  by (auto simp: Open_def Let_def notify_def consistent_def running_def closed_def
        split: sum.splits option.splits if_splits)

lemma consistent_ctl: "ctl t = ctl s \<Longrightarrow> consistent s \<Longrightarrow> consistent t"
  by (simp add: ctl_def consistent_def running_def)

text \<open>The steps that are not of \<open>Open\<close> or \<open>Close\<close> and in which no worker returns.\<close>

lemma fire_ctl:
  assumes "fire w a s = Some t"
    and "a \<notin> {Call_Open, Call_Close, Do_Close_conn, Do_Close_flush, Do_Close_finish,
               Serve_select, Parser_done, Writer_done}"
  shows "ctl t = ctl s"
proof (cases a)
  case Call_With
  with assms show ?thesis by (auto simp: With_def ctl_def)
next
  case Serve_start
  with assms show ?thesis by (auto simp: serve_start_def ctl_def split: if_splits)
next
  case Serve_read
  with assms show ?thesis
    by (auto simp: ReadFromUDP_def serve_read_def notify_def ctl_def
          split: if_splits option.splits UDPConn.splits list.splits sum.splits)
next
  case Serve_send
  with assms show ?thesis
    by (auto simp: serve_send_def ctl_def split: if_splits serve_pc.splits)
next
  case (Parser_buf now)
  with assms show ?thesis
    by (auto simp: parser_decode_def notify_def ctl_def
          split: if_splits list.splits sum.splits option.splits)
next
  case Parser_send
  with assms show ?thesis
    by (auto simp: parser_send_def ctl_def split: parser_pc.splits list.splits option.splits)
next
  case Parser_count
  with assms show ?thesis
    by (auto simp: parser_count_def ctl_def split: parser_pc.splits list.splits)
next
  case Writer_batch
  with assms show ?thesis by (auto simp: ctl_def split: if_splits list.splits)
next
  case Writer_rlock
  with assms show ?thesis by (auto simp: ctl_def split: if_splits writer_pc.splits)
next
  case Writer_create
  with assms show ?thesis
    by (auto simp: call_CreateDatabase_def notify_def ctl_def
          split: writer_pc.splits option.splits)
next
  case Writer_lock
  with assms show ?thesis by (auto simp: ctl_def split: if_splits writer_pc.splits)
next
  case Writer_write
  with assms show ?thesis
    by (auto simp: write_batch_def notify_def Let_def ctl_def
          split: writer_pc.splits option.splits)
next
  case (Net_deliver r)
  with assms show ?thesis by (auto simp: ctl_def split: if_splits)
next
  case Batcher_timeout
  with assms show ?thesis by (auto simp: ctl_def)
qed (use assms in simp_all)

lemma fire_consistent:
  assumes "fire w a s = Some t" and "consistent s"
  shows "consistent t"
proof (cases "a \<in> {Call_Open, Call_Close, Do_Close_conn, Do_Close_flush, Do_Close_finish,
                    Serve_select, Parser_done, Writer_done}")
  case False
  with assms(1) have "ctl t = ctl s" by (rule fire_ctl)
  from this assms(2) show ?thesis by (rule consistent_ctl)
next
  case True
  then consider "a = Call_Open" | "a = Call_Close" | "a = Do_Close_conn" | "a = Do_Close_flush"
    | "a = Do_Close_finish" | "a = Serve_select" | "a = Parser_done" | "a = Writer_done"
    by blast
  then show ?thesis
  proof cases
    case 1
    with assms Open_pcs_consistent [of s w] show ?thesis by (auto split: if_splits)
  next
    case 2
    with assms show ?thesis
      by (auto simp: Close_enter_def consistent_def running_def closed_def split: if_splits)
  next
    case 3
    with assms show ?thesis
      by (auto simp: Close_conn_def consistent_def running_def split: if_splits option.splits)
  next
    case 4
    with assms show ?thesis
      by (auto simp: Close_flush_def consistent_def running_def split: if_splits)
  next
    case 5
    with assms show ?thesis
      by (auto simp: Close_finish_def notify_def consistent_def running_def
            split: if_splits option.splits)
  next
    case 6
    with assms show ?thesis
      by (auto simp: serve_select_def consistent_def running_def split: if_splits)
  next
    case 7
    with assms show ?thesis by (auto simp: consistent_def running_def split: if_splits)
  next
    case 8
    with assms show ?thesis by (auto simp: consistent_def running_def split: if_splits)
  qed
qed

lemma run_consistent: "run w as s = Some t \<Longrightarrow> consistent s \<Longrightarrow> consistent t"
proof (induction as arbitrary: s)
  case Nil
  then show ?case by simp
next
  case (Cons a as)
  from Cons.prems(1) obtain u where u: "fire w a s = Some u" "run w as u = Some t"
    by (auto split: option.splits)
  from u(1) Cons.prems(2) have "consistent u" by (rule fire_consistent)
  with Cons.IH u(2) show ?case by simp
qed

lemma NewService_consistent: "consistent (NewService w c)"
  by (simp add: consistent_def running_def NewService_def Let_def)

lemma wants_mu_running: "consistent s \<Longrightarrow> wants_mu s \<Longrightarrow> 0 < wg s"
  by (auto simp: consistent_def running_def wants_mu_def split: writer_pc.splits)

lemma fire_locked_out:
  assumes "fire w a s = Some t" and "consistent s" and "close_at s \<noteq> C_idle" and "wants_mu s"
  shows "close_at t \<noteq> C_idle \<and> writer_at t = writer_at s \<and> writes t = writes s"
proof -
  from assms(2,4) have pos: "0 < wg s" by (rule wants_mu_running)
  show ?thesis
  proof (cases a)
    case Call_With
    with assms show ?thesis by (auto simp: With_def)
  next
    case Call_Open
    with assms show ?thesis by auto
  next
    case Call_Close
    with assms show ?thesis by auto
  next
    case Do_Close_conn
    with assms show ?thesis by (auto simp: Close_conn_def split: if_splits option.splits)
  next
    case Do_Close_flush
    with assms show ?thesis by (auto simp: Close_flush_def split: if_splits)
  next
    case Do_Close_finish
    with assms pos show ?thesis by (auto split: if_splits)
  next
    case Serve_start
    with assms show ?thesis by (auto simp: serve_start_def split: if_splits)
  next
    case Serve_select
    with assms show ?thesis by (auto simp: serve_select_def split: if_splits)
  next
    case Serve_read
    with assms show ?thesis
      by (auto simp: ReadFromUDP_def serve_read_def notify_def
            split: if_splits option.splits UDPConn.splits list.splits sum.splits)
  next
    case Serve_send
    with assms show ?thesis by (auto simp: serve_send_def split: if_splits serve_pc.splits)
  next
    case Parser_done
    with assms show ?thesis by (auto split: if_splits)
  next
    case (Parser_buf now)
    with assms show ?thesis
      by (auto simp: parser_decode_def notify_def
            split: if_splits list.splits sum.splits option.splits)
  next
    case Parser_send
    with assms show ?thesis
      by (auto simp: parser_send_def split: parser_pc.splits list.splits option.splits)
  next
    case Parser_count
    with assms show ?thesis
      by (auto simp: parser_count_def split: parser_pc.splits list.splits)
  next
    case Writer_batch
    with assms show ?thesis by (auto simp: wants_mu_def split: if_splits list.splits)
  next
    case Writer_done
    with assms show ?thesis by (auto simp: wants_mu_def split: if_splits)
  next
    case Writer_rlock
    with assms show ?thesis by (auto split: if_splits writer_pc.splits)
  next
    case Writer_create
    with assms show ?thesis by (auto simp: wants_mu_def split: writer_pc.splits)
  next
    case Writer_lock
    with assms show ?thesis by (auto split: if_splits writer_pc.splits)
  next
    case Writer_write
    with assms show ?thesis by (auto simp: wants_mu_def split: writer_pc.splits)
  next
    case (Net_deliver r)
    with assms show ?thesis by (auto split: if_splits)
  next
    case Batcher_timeout
    with assms show ?thesis by auto
  qed
qed

lemma run_locked_out:
  "run w as s = Some t \<Longrightarrow> consistent s \<Longrightarrow> close_at s \<noteq> C_idle \<Longrightarrow> wants_mu s \<Longrightarrow>
     close_at t \<noteq> C_idle \<and> writer_at t = writer_at s \<and> writes t = writes s"
proof (induction as arbitrary: s)
  case Nil
  then show ?case by simp
next
  case (Cons a as)
  from Cons.prems(1) obtain u where u: "fire w a s = Some u" "run w as u = Some t"
    by (auto split: option.splits)
  from u(1) Cons.prems(2-4)
  have k: "close_at u \<noteq> C_idle \<and> writer_at u = writer_at s \<and> writes u = writes s"
    by (rule fire_locked_out)
  from u(1) Cons.prems(2) have c: "consistent u" by (rule fire_consistent)
  from k Cons.prems(4) have m: "wants_mu u" by (simp add: wants_mu_def)
  from Cons.IH [OF u(2) c _ m] k show ?case by simp
qed

lemma Close_waits_for_writer_that_waits_for_Close:
  assumes "run w as (NewService w c) = Some s"
    and "close_at s \<noteq> C_idle" and "wants_mu s"
    and "run w bs s = Some t"
  shows "close_at t \<noteq> C_idle \<and> writer_at t = writer_at s \<and> writes t = writes s"
proof -
  from assms(1) have "consistent s"
    using run_consistent NewService_consistent by blast
  with assms(2-4) show ?thesis
    using run_locked_out by blast
qed

text \<open>On the example the writer gets there by taking the batch that \<open>Close\<close> has flushed.\<close>

lemma writer_takes_flushed_batch:
  "map_option (\<lambda>s. (lifecycle s, wants_mu s, enabled (example_world 0 0) writer_actions s))
     (run (example_world 0 0) (points_buffered @ take 3 shutdown @ [Writer_batch])
        (NewService (example_world 0 0) example_config)) =
     Some ((C_wait, S_select, P_select, W_rlock [Point ''m'' [] [] 11, Point ''m'' [] [] 12], 3),
           True, [])"
  by (simp add: wants_mu_def enabled_def writer_actions_def shutdown_def service_defs
        batcher_defs example_defs)

section \<open>Parser\<close>

lemma batched_emit: "batched (batcher_emit b) = batched b"
  by (simp add: batched_def batcher_emit_def)

lemma batcher_In_blocks: "(batcher_In p b = None) = batcher_saturated b"
  by (simp add: batcher_In_def Let_def)

lemma batched_In: "batcher_In p b = Some b' \<Longrightarrow> batched b' = batched b @ [p]"
  by (auto simp: batcher_In_def Let_def batched_def batcher_emit_def split: if_splits)

lemma run_append:
  "run w (as @ bs) s = (case run w as s of None \<Rightarrow> None | Some u \<Rightarrow> run w bs u)"
  by (induction as arbitrary: s) (simp_all split: option.splits)

lemma Parser_send_step:
  assumes "parser_at s = P_forward points (p # rest)"
  shows "fire w Parser_send s =
           (case batcher_In p (batcher s) of
              None \<Rightarrow> None
            | Some b \<Rightarrow> Some (s\<lparr>batcher := b, parser_at := P_forward points rest\<rparr>))"
  using assms by (simp add: parser_send_def)

lemma Parser_send_enabled:
  "fire w Parser_send s = Some t \<Longrightarrow>
     \<exists>points p rest b.
       parser_at s = P_forward points (p # rest) \<and> batcher_In p (batcher s) = Some b \<and>
       t = s\<lparr>batcher := b, parser_at := P_forward points rest\<rparr>"
  by (auto simp: parser_send_def split: parser_pc.splits list.splits option.splits)

lemma sends_forward_a_prefix:
  "run w (replicate k Parser_send) s = Some t \<Longrightarrow> parser_at s = P_forward points rest \<Longrightarrow>
     k \<le> length rest \<and> batched (batcher t) = batched (batcher s) @ take k rest \<and>
     stats t = stats s \<and> Diagnostic t = Diagnostic s \<and> parserChan t = parserChan s \<and>
     parser_at t = P_forward points (drop k rest)"
proof (induction k arbitrary: s rest)
  case 0
  then show ?case by simp
next
  case (Suc k)
  from Suc.prems(1) obtain u where u: "fire w Parser_send s = Some u"
    and r: "run w (replicate k Parser_send) u = Some t"
    by (auto split: option.splits)
  from Parser_send_enabled [OF u] Suc.prems(2) obtain p rest' b where
    rest: "rest = p # rest'" and b: "batcher_In p (batcher s) = Some b"
    and ueq: "u = s\<lparr>batcher := b, parser_at := P_forward points rest'\<rparr>"
    by auto
  from ueq have at: "parser_at u = P_forward points rest'" by simp
  from Suc.IH [OF r at] batched_In [OF b] rest ueq show ?case by simp
qed


lemma unbounded_never_saturated:
  "pb_pending b \<le> 0 \<Longrightarrow> batcher_In p b = Some b' \<Longrightarrow> pb_pending b' \<le> 0"
  by (auto simp: batcher_In_def Let_def batcher_emit_def split: if_splits)

lemma sends_complete_when_unbounded:
  "parser_at s = P_forward points rest \<Longrightarrow> pb_pending (batcher s) \<le> 0 \<Longrightarrow>
     \<exists>t. run w (replicate (length rest) Parser_send) s = Some t"
proof (induction rest arbitrary: s)
  case Nil
  then show ?case by simp
next
  case (Cons p rest)
  from Cons.prems(2) have "\<not> batcher_saturated (batcher s)"
    by (simp add: batcher_saturated_def batcher_room_def)
  then obtain b where b: "batcher_In p (batcher s) = Some b"
    using batcher_In_blocks [of p "batcher s"] by auto
  let ?u = "s\<lparr>batcher := b, parser_at := P_forward points rest\<rparr>"
  from Cons.prems(1) b have f: "fire w Parser_send s = Some ?u"
    by (simp add: parser_send_def)
  from unbounded_never_saturated [OF Cons.prems(2) b]
  have "\<exists>t. run w (replicate (length rest) Parser_send) ?u = Some t"
    by (intro Cons.IH) simp_all
  with f show ?case by simp
qed

text \<open>
  C3, as stated, fails on the example with batches of one point and one pending batch. The
  decoder has returned four points; two are forwarded, then \<open>Close\<close> flushes the batcher and
  the writer returns, a third is forwarded, and the send of the fourth blocks on the saturated
  batcher: three of the four points are forwarded, \<open>PointsReceived\<close> is still zero, and no
  step of the parser is enabled.
\<close>

theorem parser_blocked_mid_datagram:
  "map_option (parser_view (example_world 0 0))
     (run (example_world 0 0) parser_interrupted (NewService (example_world 0 0) small_config)) =
     Some (P_forward [Point ''m'' [] [] 11, Point ''m'' [] [] 12, Point ''m'' [] [] 13,
                      Point ''m'' [] [] 14]
                     [Point ''m'' [] [] 14],
           [Point ''m'' [] [] 11, Point ''m'' [] [] 12, Point ''m'' [] [] 13], 0, 0, [])"
  by (simp add: parser_view_def enabled_def parser_actions_def parser_interrupted_def
        small_config_def batched_def service_defs batcher_defs example_defs)

text \<open>
  C3, amended. A datagram whose decoding fails raises \<open>PointsParseFail\<close> by one, tells the
  sink if there is one, forwards nothing and leaves the other counters, and the parser is at
  its select again. A datagram that decodes to \<open>points\<close> changes nothing but to put the
  parser into its loop. There each send is blocked while the batcher is saturated and
  otherwise hands the batcher the next point, in the decoded order, and changes no counter:
  after \<open>k\<close> sends the batcher has received the first \<open>k\<close> points and \<open>PointsReceived\<close> is as
  before. Only when no point is left is \<open>PointsReceived\<close> raised, by the number of points
  (in 64-bit arithmetic), with nothing else changed, and the parser is at its select again.
  So a datagram whose sends all go through ends with all its points forwarded and counted
  once; the sends do all go through when the batcher bounds no pending batches.
\<close>

theorem parser_forwards_then_counts:
  "(parser_at s = P_select \<and> parserChan s = buf # queue \<and>
    ParsePointsWithPrecision w buf now (Precision (config s)) = Inl err \<longrightarrow>
      fire w (Parser_buf now) s =
        Some (notify (ParseError err)
                (s\<lparr>parserChan := queue,
                   stats := (stats s)\<lparr>PointsParseFail := PointsParseFail (stats s) + 1\<rparr>\<rparr>))) \<and>
   (parser_at s = P_select \<and> parserChan s = buf # queue \<and>
    ParsePointsWithPrecision w buf now (Precision (config s)) = Inr points \<longrightarrow>
      fire w (Parser_buf now) s =
        Some (s\<lparr>parserChan := queue, parser_at := P_forward points points\<rparr>)) \<and>
   (parser_at s = P_forward points (p # rest) \<longrightarrow>
      map_option (\<lambda>t. (batched (batcher t), stats t, Diagnostic t, parser_at t))
        (fire w Parser_send s) =
        (if batcher_saturated (batcher s) then None
         else Some (batched (batcher s) @ [p], stats s, Diagnostic s, P_forward points rest))) \<and>
   (parser_at s = P_forward points rest \<and> run w (replicate k Parser_send) s = Some t \<longrightarrow>
      k \<le> length rest \<and> batched (batcher t) = batched (batcher s) @ take k rest \<and>
      stats t = stats s \<and> parser_at t = P_forward points (drop k rest)) \<and>
   (parser_at s = P_forward points [] \<longrightarrow>
      fire w Parser_count s =
        Some (s\<lparr>stats := (stats s)
                  \<lparr>PointsReceived := PointsReceived (stats s) + of_nat (length points)\<rparr>,
                parser_at := P_select\<rparr>)) \<and>
   (parser_at s = P_select \<and> parserChan s = buf # queue \<and>
    ParsePointsWithPrecision w buf now (Precision (config s)) = Inr points \<and>
    run w (Parser_buf now # replicate (length points) Parser_send @ [Parser_count]) s = Some t
    \<longrightarrow>
      batched (batcher t) = batched (batcher s) @ points \<and>
      stats t =
        (stats s)\<lparr>PointsReceived := PointsReceived (stats s) + of_nat (length points)\<rparr> \<and>
      Diagnostic t = Diagnostic s \<and> parserChan t = queue \<and> parser_at t = P_select) \<and>
   (parser_at s = P_forward points rest \<and> pb_pending (batcher s) \<le> 0 \<longrightarrow>
      run w (replicate (length rest) Parser_send @ [Parser_count]) s \<noteq> None)"
proof (intro conjI impI)
  assume "parser_at s = P_select \<and> parserChan s = buf # queue \<and>
    ParsePointsWithPrecision w buf now (Precision (config s)) = Inl err"
  then show "fire w (Parser_buf now) s =
        Some (notify (ParseError err)
                (s\<lparr>parserChan := queue,
                   stats := (stats s)\<lparr>PointsParseFail := PointsParseFail (stats s) + 1\<rparr>\<rparr>))"
    by (simp add: parser_decode_def notify_def split: option.splits)
next
  assume "parser_at s = P_select \<and> parserChan s = buf # queue \<and>
    ParsePointsWithPrecision w buf now (Precision (config s)) = Inr points"
  then show "fire w (Parser_buf now) s =
        Some (s\<lparr>parserChan := queue, parser_at := P_forward points points\<rparr>)"
    by (simp add: parser_decode_def)
next
  assume at: "parser_at s = P_forward points (p # rest)"
  show "map_option (\<lambda>t. (batched (batcher t), stats t, Diagnostic t, parser_at t))
        (fire w Parser_send s) =
        (if batcher_saturated (batcher s) then None
         else Some (batched (batcher s) @ [p], stats s, Diagnostic s, P_forward points rest))"
  proof (cases "batcher_In p (batcher s)")
    case None
    with at batcher_In_blocks [of p "batcher s"] show ?thesis
      by (simp add: parser_send_def)
  next
    case (Some b)
    with at batcher_In_blocks [of p "batcher s"] batched_In [OF Some] show ?thesis
      by (simp add: parser_send_def)
  qed
next
  assume h: "parser_at s = P_forward points rest \<and> run w (replicate k Parser_send) s = Some t"
  then have all: "k \<le> length rest \<and> batched (batcher t) = batched (batcher s) @ take k rest \<and>
     stats t = stats s \<and> Diagnostic t = Diagnostic s \<and> parserChan t = parserChan s \<and>
     parser_at t = P_forward points (drop k rest)"
    using sends_forward_a_prefix [of w k s t points rest] by simp
  from all show "k \<le> length rest" by simp
  from all show "batched (batcher t) = batched (batcher s) @ take k rest" by simp
  from all show "stats t = stats s" by simp
  from all show "parser_at t = P_forward points (drop k rest)" by simp
next
  assume "parser_at s = P_forward points []"
  then show "fire w Parser_count s =
        Some (s\<lparr>stats := (stats s)
                  \<lparr>PointsReceived := PointsReceived (stats s) + of_nat (length points)\<rparr>,
                parser_at := P_select\<rparr>)"
    by (simp add: parser_count_def)
next
  assume h: "parser_at s = P_select \<and> parserChan s = buf # queue \<and>
    ParsePointsWithPrecision w buf now (Precision (config s)) = Inr points \<and>
    run w (Parser_buf now # replicate (length points) Parser_send @ [Parser_count]) s = Some t"
  let ?u = "s\<lparr>parserChan := queue, parser_at := P_forward points points\<rparr>"
  from h have f: "fire w (Parser_buf now) s = Some ?u"
    by (simp add: parser_decode_def)
  from h have "run w (Parser_buf now # replicate (length points) Parser_send @ [Parser_count]) s
                 = Some t"
    by blast
  then have r: "run w (replicate (length points) Parser_send @ [Parser_count]) ?u = Some t"
    by (simp only: run.simps f option.case)
  then obtain v where v: "run w (replicate (length points) Parser_send) ?u = Some v"
    and c: "fire w Parser_count v = Some t"
    by (auto simp: run_append split: option.splits)
  have at: "parser_at ?u = P_forward points points" by simp
  from sends_forward_a_prefix [OF v at]
  have sent: "batched (batcher v) = batched (batcher s) @ points \<and> stats v = stats s \<and>
      Diagnostic v = Diagnostic s \<and> parserChan v = queue \<and> parser_at v = P_forward points []"
    by simp
  with c have t: "t = parser_count points v" by simp
  from sent show "batched (batcher t) = batched (batcher s) @ points"
    by (simp add: t parser_count_def)
  from sent show "stats t =
        (stats s)\<lparr>PointsReceived := PointsReceived (stats s) + of_nat (length points)\<rparr>"
    by (simp add: t parser_count_def)
  from sent show "Diagnostic t = Diagnostic s" by (simp add: t parser_count_def)
  from sent show "parserChan t = queue" by (simp add: t parser_count_def)
  show "parser_at t = P_select" by (simp add: t parser_count_def)
next
  assume h: "parser_at s = P_forward points rest \<and> pb_pending (batcher s) \<le> 0"
  then obtain v where v: "run w (replicate (length rest) Parser_send) s = Some v"
    using sends_complete_when_unbounded [of s points rest w] by auto
  from h sends_forward_a_prefix [OF v] have "parser_at v = P_forward points []" by simp
  with v show "run w (replicate (length rest) Parser_send @ [Parser_count]) s \<noteq> None"
    by (simp add: run_append)
qed


text \<open>
  On the example: the empty datagram and a datagram of three bytes, step by step; the
  blocked send of the execution above; and three sends into a batcher without bound.
\<close>

theorem parser_forwards_then_counts_witness:
  "map_option (parser_view (example_world 0 0))
     (run (example_world 0 0) (two_datagrams @ [Parser_buf 10])
        (NewService (example_world 0 0) example_config)) =
     Some (P_select, [], 0, 1, [Parser_buf 0]) \<and>
   map_option (parser_view (example_world 0 0))
     (run (example_world 0 0)
        (two_datagrams @ [Parser_buf 10, Parser_buf 10, Parser_send, Parser_send])
        (NewService (example_world 0 0) example_config)) =
     Some (P_forward [Point ''m'' [] [] 11, Point ''m'' [] [] 12, Point ''m'' [] [] 13]
                     [Point ''m'' [] [] 13],
           [Point ''m'' [] [] 11, Point ''m'' [] [] 12], 0, 1, [Parser_send]) \<and>
   map_option (parser_view (example_world 0 0))
     (run (example_world 0 0)
        (two_datagrams @
         [Parser_buf 10, Parser_buf 10, Parser_send, Parser_send, Parser_send, Parser_count])
        (NewService (example_world 0 0) example_config)) =
     Some (P_select, [Point ''m'' [] [] 11, Point ''m'' [] [] 12, Point ''m'' [] [] 13],
           3, 1, []) \<and>
   batcher_saturated
     (batcher (after (example_world 0 0) parser_interrupted
                 (NewService (example_world 0 0) small_config))) \<and>
   fire (example_world 0 0) Parser_send
     (after (example_world 0 0) parser_interrupted
        (NewService (example_world 0 0) small_config)) = None \<and>
   run (example_world 0 0) (replicate 3 Parser_send @ [Parser_count])
     (after (example_world 0 0) (two_datagrams @ [Parser_buf 10, Parser_buf 10])
        (NewService (example_world 0 0) unbounded_config)) \<noteq> None"
proof -
  let ?w = "example_world 0 0"
  let ?n = "NewService ?w example_config"
  let ?p1 = "Point ''m'' [] [] 11"
  let ?p4 = "Point ''m'' [] [] 14"
  let ?tl = "[Point ''m'' [] [] 12, Point ''m'' [] [] 13]"
  let ?pts = "?p1 # ?tl"
  let ?e = "ErrExternal ''unable to parse''"
  let ?a = "after ?w two_datagrams ?n"
  let ?b = "after ?w (two_datagrams @ [Parser_buf 10]) ?n"
  let ?c = "after ?w (two_datagrams @ [Parser_buf 10, Parser_buf 10]) ?n"
  let ?d = "after ?w (two_datagrams @ [Parser_buf 10, Parser_buf 10, Parser_send, Parser_send]) ?n"
  let ?f = "after ?w (two_datagrams @ [Parser_buf 10, Parser_buf 10, Parser_send, Parser_send,
                                       Parser_send]) ?n"
  let ?g = "after ?w (two_datagrams @ [Parser_buf 10, Parser_buf 10, Parser_send, Parser_send,
                                       Parser_send, Parser_count]) ?n"
  let ?z = "after ?w parser_interrupted (NewService ?w small_config)"
  let ?u = "after ?w (two_datagrams @ [Parser_buf 10, Parser_buf 10])
              (NewService ?w unbounded_config)"
  note t = parser_forwards_then_counts
  note t1 = t [THEN conjunct1, rule_format]
  note t2 = t [THEN conjunct2, THEN conjunct1, rule_format]
  note t3 = t [THEN conjunct2, THEN conjunct2, THEN conjunct1, rule_format]
  note t4 = t [THEN conjunct2, THEN conjunct2, THEN conjunct2, THEN conjunct1, rule_format]
  note t5 = t [THEN conjunct2, THEN conjunct2, THEN conjunct2, THEN conjunct2, THEN conjunct1,
               rule_format]
  note t6 = t [THEN conjunct2, THEN conjunct2, THEN conjunct2, THEN conjunct2, THEN conjunct2,
               THEN conjunct1, rule_format]
  note t7 = t [THEN conjunct2, THEN conjunct2, THEN conjunct2, THEN conjunct2, THEN conjunct2,
               THEN conjunct2, rule_format]
  have r2: "replicate 2 Parser_send = [Parser_send, Parser_send]"
    by (simp add: numeral_2_eq_2)
  have r3: "replicate 3 Parser_send = [Parser_send, Parser_send, Parser_send]"
    by (simp add: numeral_3_eq_3)
  have l3: "replicate (length ?pts) Parser_send = [Parser_send, Parser_send, Parser_send]"
    by simp
  have a: "parser_at ?a = P_select \<and> parserChan ?a = [] # [[1, 2, 3]] \<and>
           ParsePointsWithPrecision ?w [] 10 (Precision (config ?a)) = Inl ?e"
    by (simp add: two_datagrams_def service_defs batcher_defs example_defs)
  have b: "parser_at ?b = P_select \<and> parserChan ?b = [1, 2, 3] # [] \<and>
           ParsePointsWithPrecision ?w [1, 2, 3] 10 (Precision (config ?b)) = Inr ?pts"
    by (simp add: two_datagrams_def service_defs batcher_defs example_defs)
  have c: "parser_at ?c = P_forward ?pts (?p1 # ?tl)"
    by (simp add: two_datagrams_def service_defs batcher_defs example_defs)
  have c': "\<not> batcher_saturated (batcher ?c)"
    by (simp add: two_datagrams_def service_defs batcher_defs example_defs)
  have cd: "parser_at ?c = P_forward ?pts ?pts \<and> run ?w (replicate 2 Parser_send) ?c = Some ?d"
    unfolding r2 by (simp add: two_datagrams_def service_defs batcher_defs example_defs)
  have f: "parser_at ?f = P_forward ?pts []"
    by (simp add: two_datagrams_def service_defs batcher_defs example_defs)
  have g: "parser_at ?b = P_select \<and> parserChan ?b = [1, 2, 3] # [] \<and>
           ParsePointsWithPrecision ?w [1, 2, 3] 10 (Precision (config ?b)) = Inr ?pts \<and>
           run ?w (Parser_buf 10 # replicate (length ?pts) Parser_send @ [Parser_count]) ?b
             = Some ?g"
    unfolding l3 by (simp add: two_datagrams_def service_defs batcher_defs example_defs)
  have z: "parser_at ?z = P_forward (?pts @ [?p4]) (?p4 # [])"
    by (simp add: parser_interrupted_def small_config_def service_defs batcher_defs
          example_defs)
  have z': "batcher_saturated (batcher ?z)"
    by (simp add: parser_interrupted_def small_config_def service_defs batcher_defs
          example_defs)
  have u: "parser_at ?u = P_forward ?pts ?pts \<and> pb_pending (batcher ?u) \<le> 0"
    by (simp add: two_datagrams_def unbounded_config_def service_defs batcher_defs
          example_defs)
  from a have fail: "fire ?w (Parser_buf 10) ?a =
      Some (notify (ParseError ?e)
              (?a\<lparr>parserChan := [[1, 2, 3]],
                   stats := (stats ?a)\<lparr>PointsParseFail := PointsParseFail (stats ?a) + 1\<rparr>\<rparr>))"
    by (rule t1)
  from b have enter: "fire ?w (Parser_buf 10) ?b =
      Some (?b\<lparr>parserChan := [], parser_at := P_forward ?pts ?pts\<rparr>)"
    by (rule t2)
  from c have one: "map_option (\<lambda>t. (batched (batcher t), stats t, Diagnostic t, parser_at t))
               (fire ?w Parser_send ?c) =
             (if batcher_saturated (batcher ?c) then None
              else Some (batched (batcher ?c) @ [?p1], stats ?c, Diagnostic ?c,
                         P_forward ?pts ?tl))"
    by (rule t3)
  from cd have two: "2 \<le> length ?pts \<and> batched (batcher ?d) = batched (batcher ?c) @ take 2 ?pts \<and>
             stats ?d = stats ?c \<and> parser_at ?d = P_forward ?pts (drop 2 ?pts)"
    by (rule t4)
  from f have count: "fire ?w Parser_count ?f =
      Some (?f\<lparr>stats := (stats ?f)
                  \<lparr>PointsReceived := PointsReceived (stats ?f) + of_nat (length ?pts)\<rparr>,
               parser_at := P_select\<rparr>)"
    by (rule t5)
  from g have whole: "batched (batcher ?g) = batched (batcher ?b) @ ?pts \<and>
      stats ?g = (stats ?b)\<lparr>PointsReceived := PointsReceived (stats ?b) + of_nat (length ?pts)\<rparr>
      \<and> Diagnostic ?g = Diagnostic ?b \<and> parserChan ?g = [] \<and> parser_at ?g = P_select"
    by (rule t6)
  from z have "map_option (\<lambda>t. (batched (batcher t), stats t, Diagnostic t, parser_at t))
                   (fire ?w Parser_send ?z) =
               (if batcher_saturated (batcher ?z) then None
                else Some (batched (batcher ?z) @ [?p4], stats ?z, Diagnostic ?z,
                           P_forward (?pts @ [?p4]) []))"
    by (rule t3)
  then have blocked: "fire ?w Parser_send ?z = None"
    by (simp only: z' if_True option.map_disc_iff)
  from u have "run ?w (replicate (length ?pts) Parser_send @ [Parser_count]) ?u \<noteq> None"
    by (rule t7)
  then have unbounded: "run ?w (replicate 3 Parser_send @ [Parser_count]) ?u \<noteq> None"
    unfolding l3 r3 .
  have v1: "map_option (parser_view ?w) (run ?w (two_datagrams @ [Parser_buf 10]) ?n) =
              Some (P_select, [], 0, 1, [Parser_buf 0])"
    by (simp add: parser_view_def enabled_def parser_actions_def batched_def two_datagrams_def
          service_defs batcher_defs example_defs)
  have v2: "map_option (parser_view ?w)
              (run ?w (two_datagrams @ [Parser_buf 10, Parser_buf 10, Parser_send, Parser_send])
                 ?n) =
              Some (P_forward ?pts [Point ''m'' [] [] 13],
                    [Point ''m'' [] [] 11, Point ''m'' [] [] 12], 0, 1, [Parser_send])"
    by (simp add: parser_view_def enabled_def parser_actions_def batched_def two_datagrams_def
          service_defs batcher_defs example_defs)
  have v3: "map_option (parser_view ?w)
              (run ?w (two_datagrams @ [Parser_buf 10, Parser_buf 10, Parser_send, Parser_send,
                                        Parser_send, Parser_count]) ?n) =
              Some (P_select, ?pts, 3, 1, [])"
    by (simp add: parser_view_def enabled_def parser_actions_def batched_def two_datagrams_def
          service_defs batcher_defs example_defs)
  from fail enter one two count whole v1 v2 v3 z' blocked unbounded show ?thesis
    by - (intro conjI; assumption)
qed

section \<open>A parser that cannot go on\<close>

lemma parser_running: "consistent s \<Longrightarrow> parser_at s \<noteq> P_off \<Longrightarrow> 0 < wg s"
  by (auto simp: consistent_def running_def)

lemma parser_stuck_at:
  "parser_stuck s \<Longrightarrow>
     close_at s = C_wait \<and> writer_at s = W_off \<and> pb_flushed (batcher s) \<and>
     batcher_saturated (batcher s) \<and>
     (\<exists>points p rest. parser_at s = P_forward points (p # rest))"
  by (auto simp: parser_stuck_def split: parser_pc.splits list.splits)

lemma saturated_fields:
  "pb_size b' = pb_size b \<Longrightarrow> pb_pending b' = pb_pending b \<Longrightarrow> pb_buf b' = pb_buf b \<Longrightarrow>
     pb_out b' = pb_out b \<Longrightarrow> batcher_saturated b' = batcher_saturated b"
  by (simp add: batcher_saturated_def batcher_full_def batcher_room_def)

lemma fire_stuck:
  assumes "fire w a s = Some t" and "consistent s" and "parser_stuck s"
  shows "parser_stuck t \<and> parser_at t = parser_at s \<and> pb_buf (batcher t) = pb_buf (batcher s) \<and>
         pb_out (batcher t) = pb_out (batcher s) \<and>
         PointsReceived (stats t) = PointsReceived (stats s)"
proof -
  from assms(3) obtain points p rest where
    st: "close_at s = C_wait" "writer_at s = W_off" "pb_flushed (batcher s)"
        "batcher_saturated (batcher s)" "parser_at s = P_forward points (p # rest)"
    using parser_stuck_at by blast
  from assms(2) st(5) have pos: "0 < wg s" by (simp add: parser_running)
  from st(4) have blocked: "batcher_In p (batcher s) = None"
    by (simp add: batcher_In_blocks)
  show ?thesis
  proof (cases a)
    case Call_With
    with assms(1) st show ?thesis by (auto simp: With_def parser_stuck_def)
  next
    case Call_Open
    with assms(1) st show ?thesis by auto
  next
    case Call_Close
    with assms(1) st show ?thesis by auto
  next
    case Do_Close_conn
    with assms(1) st show ?thesis by auto
  next
    case Do_Close_flush
    with assms(1) st show ?thesis by auto
  next
    case Do_Close_finish
    with assms(1) st pos show ?thesis by auto
  next
    case Serve_start
    with assms(1) st show ?thesis
      by (auto simp: serve_start_def batcher_Start_def parser_stuck_def batcher_saturated_def
            batcher_full_def batcher_room_def split: if_splits)
  next
    case Serve_select
    with assms(1) st show ?thesis
      by (auto simp: serve_select_def parser_stuck_def split: if_splits)
  next
    case Serve_read
    with assms(1) st show ?thesis
      by (auto simp: ReadFromUDP_def serve_read_def notify_def parser_stuck_def
            split: if_splits option.splits UDPConn.splits list.splits sum.splits)
  next
    case Serve_send
    with assms(1) st show ?thesis
      by (auto simp: serve_send_def parser_stuck_def split: if_splits serve_pc.splits)
  next
    case Parser_done
    with assms(1) st show ?thesis by auto
  next
    case (Parser_buf now)
    with assms(1) st show ?thesis by auto
  next
    case Parser_send
    with assms(1) st blocked show ?thesis by (auto simp: parser_send_def)
  next
    case Parser_count
    with assms(1) st show ?thesis by auto
  next
    case Writer_batch
    with assms(1) st show ?thesis by auto
  next
    case Writer_done
    with assms(1) st show ?thesis by auto
  next
    case Writer_rlock
    with assms(1) st show ?thesis by auto
  next
    case Writer_create
    with assms(1) st show ?thesis by auto
  next
    case Writer_lock
    with assms(1) st show ?thesis by auto
  next
    case Writer_write
    with assms(1) st show ?thesis by auto
  next
    case (Net_deliver r)
    with assms(1) st show ?thesis by (auto simp: parser_stuck_def split: if_splits)
  next
    case Batcher_timeout
    with assms(1) st show ?thesis by (auto simp: batcher_timeout_def parser_stuck_def)
  qed
qed

lemma run_stuck:
  "run w as s = Some t \<Longrightarrow> consistent s \<Longrightarrow> parser_stuck s \<Longrightarrow>
     parser_stuck t \<and> parser_at t = parser_at s \<and> pb_buf (batcher t) = pb_buf (batcher s) \<and>
     pb_out (batcher t) = pb_out (batcher s) \<and>
     PointsReceived (stats t) = PointsReceived (stats s)"
proof (induction as arbitrary: s)
  case Nil
  then show ?case by simp
next
  case (Cons a as)
  from Cons.prems(1) obtain u where u: "fire w a s = Some u" "run w as u = Some t"
    by (auto split: option.splits)
  from u(1) Cons.prems(2,3)
  have k: "parser_stuck u \<and> parser_at u = parser_at s \<and> pb_buf (batcher u) = pb_buf (batcher s) \<and>
           pb_out (batcher u) = pb_out (batcher s) \<and>
           PointsReceived (stats u) = PointsReceived (stats s)"
    by (rule fire_stuck)
  from u(1) Cons.prems(2) have c: "consistent u" by (rule fire_consistent)
  from Cons.IH [OF u(2) c] k show ?case by simp
qed

text \<open>
  A parser that is stuck stays so: in no execution from there does it send another point or
  count the datagram, and \<open>Close\<close> does not return.
\<close>

lemma parser_stays_blocked:
  assumes "run w as (NewService w c) = Some s" and "parser_stuck s" and "run w bs s = Some t"
  shows "parser_at t = parser_at s \<and> batched (batcher t) = batched (batcher s) \<and>
         PointsReceived (stats t) = PointsReceived (stats s) \<and> close_at t = C_wait"
proof -
  from assms(1) have "consistent s"
    using run_consistent NewService_consistent by blast
  from run_stuck [OF assms(3) this assms(2)] parser_stuck_at [of t] show ?thesis
    by (simp add: batched_def)
qed

lemma parser_interrupted_is_stuck:
  "map_option parser_stuck
     (run (example_world 0 0) parser_interrupted (NewService (example_world 0 0) small_config)) =
     Some True"
  by (simp add: parser_stuck_def parser_interrupted_def small_config_def service_defs
        batcher_defs example_defs)

end
